theory Spec2Isabelle
  imports Complex_Main "HOL-Library.Word" "HOL-Library.Signed_Division"
begin

unbundle bit_operations_syntax

section \<open>Machine types of \<^verbatim>\<open>mandelbrot_model.cpp\<close>\<close>

text \<open>
  The model is a shallow embedding of the golden model of the drawing engine.
  \<^item> \<^verbatim>\<open>fixed_32\<close>, \<^verbatim>\<open>fixed_64\<close>, \<^verbatim>\<open>unsigned_fixed_64\<close> and \<^verbatim>\<open>colour\<close> are machine words:
    \<open>+\<close>, \<open>-\<close> and \<open>*\<close> wrap around, \<open>sint\<close> reads a word as two's complement,
    \<open>signed_drop_bit\<close> is the arithmetic right shift, \<open>scast\<close> the sign extension and
    \<open>ucast\<close> the truncation of a narrowing conversion.
  \<^item> A value of the C++ type \<^verbatim>\<open>int\<close> (32 bits on the target) is written as a HOL
    integer. Where a result of \<^verbatim>\<open>int\<close> arithmetic can leave the range of the type, the
    two's complement wrap-around of the target is written out with \<open>wrap_int\<close>.
  \<^item> \<^verbatim>\<open>std::vector\<close> is a list; \<^verbatim>\<open>push_back\<close> appends at the end; \<^verbatim>\<open>at\<close> throws
    \<^verbatim>\<open>std::out_of_range\<close>, which is the value \<open>Inl out_of_range\<close> of the model.
\<close>

type_synonym fixed_64 = "64 word"
type_synonym fixed_32 = "32 word"
type_synonym unsigned_fixed_64 = "64 word"
type_synonym colour = "16 word"

datatype error = out_of_range | division_by_zero

definition wrap_int :: "int \<Rightarrow> int" where
  "wrap_int k = signed_take_bit 31 k"

definition INT_MAX :: int where
  "INT_MAX = 2147483647"

definition XSIZE :: nat where
  "XSIZE = 640"

definition YSIZE :: nat where
  "YSIZE = 480"

definition BASE_INCREMENT_AMOUNT :: int where
  "BASE_INCREMENT_AMOUNT = 0x00000fa0"

definition FRAC_BITS :: nat where
  "FRAC_BITS = 29"

text \<open>
  The macros \<^verbatim>\<open>RED\<close>, \<^verbatim>\<open>GREEN\<close> and \<^verbatim>\<open>BLUE\<close>. Their argument is a \<^verbatim>\<open>uint16_t\<close>
  that C++ promotes to \<^verbatim>\<open>int\<close>; shift and mask give the same number in 16 bits.
\<close>

definition RED :: "colour \<Rightarrow> colour" where
  "RED c = (drop_bit 11 c) AND 0x1F"

definition GREEN :: "colour \<Rightarrow> colour" where
  "GREEN c = (drop_bit 5 c) AND 0x3F"

definition BLUE :: "colour \<Rightarrow> colour" where
  "BLUE c = c AND 0x1F"

record coord_step =
  c_x :: fixed_32
  c_y :: fixed_32
  c_step :: fixed_32

text \<open>\<^verbatim>\<open>std::vector::at\<close> with an \<^verbatim>\<open>int\<close> index: a negative index converts to a huge
  \<^verbatim>\<open>size_t\<close> and is out of range as well.\<close>

definition vector_at :: "'a list \<Rightarrow> int \<Rightarrow> error + 'a" where
  "vector_at v n = (if 0 \<le> n \<and> n < int (length v) then Inr (v ! nat n) else Inl out_of_range)"

section \<open>Spread index (\<^verbatim>\<open>get_spread_colour_index\<close>)\<close>

text \<open>
  The shifts of a non-negative \<^verbatim>\<open>int\<close> are \<open>drop_bit\<close>. The product is the one
  operation whose result can leave the range of \<^verbatim>\<open>int\<close>.
\<close>

definition get_spread_colour_index :: "int \<Rightarrow> int \<Rightarrow> int" where
  "get_spread_colour_index iterations max_iterations =
     (if max_iterations < 16 then iterations
      else
        let spread_value = wrap_int (iterations *
              (drop_bit 4 max_iterations - drop_bit 5 max_iterations
               - drop_bit 6 max_iterations - drop_bit 10 max_iterations))
        in if spread_value < max_iterations then spread_value else max_iterations - 1)"

section \<open>Fixed-point kernel (\<^verbatim>\<open>fixed_mult\<close>)\<close>

definition fixed_mult :: "fixed_64 \<Rightarrow> fixed_64 \<Rightarrow> fixed_64" where
  "fixed_mult a b = signed_drop_bit FRAC_BITS (a * b)"

section \<open>Coordinate mapper (\<^verbatim>\<open>center_coords\<close>)\<close>

text \<open>
  \<^verbatim>\<open>1 << (10 - zoom)\<close> is at most \<open>1024\<close> after the reset of \<^verbatim>\<open>zoom\<close>, and the step
  at most \<open>4096000\<close>; the two products with the step and the sum and the difference
  with the centre are 32-bit arithmetic.
\<close>

definition center_coords :: "fixed_32 \<Rightarrow> fixed_32 \<Rightarrow> int \<Rightarrow> coord_step" where
  "center_coords center_x center_y zoom =
     (let zoom' = (if zoom > 10 then 0 else if zoom < 0 then 0 else zoom);
          step_size = (word_of_int (BASE_INCREMENT_AMOUNT * push_bit (nat (10 - zoom')) 1) :: fixed_32)
      in \<lparr> c_x = center_x - word_of_int (drop_bit 1 (int XSIZE)) * step_size,
           c_y = center_y + word_of_int (drop_bit 1 (int YSIZE)) * step_size,
           c_step = step_size \<rparr>)"

section \<open>The reset of \<^verbatim>\<open>max_iterations\<close> in \<^verbatim>\<open>main\<close>\<close>

definition clamp_max_iterations :: "int \<Rightarrow> int" where
  "clamp_max_iterations max_iterations =
     (let m = (if max_iterations \<le> 0 then 1 else max_iterations)
      in if m > 1023 then 1 else m)"

section \<open>Colour map builder\<close>

subsection \<open>\<^verbatim>\<open>generate_unique_colours\<close>\<close>

text \<open>
  The \<^verbatim>\<open>while\<close> loop of one segment. Its state is \<^verbatim>\<open>colour_start\<close>, the three
  \<^verbatim>\<open>uint16_t\<close> components and the vector; the three increments and \<^verbatim>\<open>colour_end\<close> are
  fixed before the loop. \<^verbatim>\<open>r += r_inc\<close> adds an \<^verbatim>\<open>int\<close> to a \<^verbatim>\<open>uint16_t\<close> and stores
  the sum back in 16 bits; the recombination is computed in \<^verbatim>\<open>int\<close> and stored in 16
  bits. The loop has no bound of its own: a run that never leaves it is the value
  \<open>None\<close>.
\<close>

partial_function (option) interpolate ::
  "int \<Rightarrow> int \<Rightarrow> int \<Rightarrow> colour \<Rightarrow> colour \<Rightarrow> colour \<Rightarrow> colour \<Rightarrow> colour
    \<Rightarrow> colour list \<Rightarrow> colour list option" where
  "interpolate r_inc g_inc b_inc colour_end colour_start r g b unique_colours =
     (if colour_start \<noteq> colour_end then
        let r' = (if r \<noteq> RED colour_end then r + word_of_int r_inc else r);
            g' = (if g \<noteq> GREEN colour_end then g + word_of_int g_inc else g);
            b' = (if b \<noteq> BLUE colour_end then b + word_of_int b_inc else b);
            colour_start' = push_bit 11 r' OR push_bit 5 g' OR b'
        in interpolate r_inc g_inc b_inc colour_end colour_start' r' g' b'
             (unique_colours @ [colour_start'])
      else Some unique_colours)"

declare interpolate.simps [code]

text \<open>The body of the \<^verbatim>\<open>for\<close> loop: one segment, from its start colour to its end
  colour. The differences of the components are \<^verbatim>\<open>int\<close> differences of numbers below
  64.\<close>

definition segment :: "colour \<Rightarrow> colour \<Rightarrow> colour list \<Rightarrow> colour list option" where
  "segment colour_start colour_end unique_colours =
     (let r = RED colour_start;
          g = GREEN colour_start;
          b = BLUE colour_start;
          b_inc = (if uint (BLUE colour_end) - uint (BLUE colour_start) > 0 then 1 else - 1);
          g_inc = (if uint (GREEN colour_end) - uint (GREEN colour_start) > 0 then 1 else - 1);
          r_inc = (if uint (RED colour_end) - uint (RED colour_start) > 0 then 1 else - 1)
      in interpolate r_inc g_inc b_inc colour_end colour_start r g b
           (unique_colours @ [colour_start]))"

text \<open>The \<^verbatim>\<open>for\<close> loop over the five segments, from segment \<open>i\<close> on. The result is
  \<open>None\<close> when a segment never ends, \<open>Some (Inl e)\<close> when \<^verbatim>\<open>at\<close> throws, and
  \<open>Some (Inr u)\<close> with the vector \<open>u\<close> when the function returns.\<close>

function segments :: "int \<Rightarrow> colour list \<Rightarrow> colour list \<Rightarrow> (error + colour list) option" where
  "segments i interp_points unique_colours =
     (if i < 5 then
        (case vector_at interp_points i of
           Inl e \<Rightarrow> Some (Inl e)
         | Inr colour_start \<Rightarrow>
            (case vector_at interp_points (i + 1) of
               Inl e \<Rightarrow> Some (Inl e)
             | Inr colour_end \<Rightarrow>
                (case segment colour_start colour_end unique_colours of
                   None \<Rightarrow> None
                 | Some u \<Rightarrow> segments (i + 1) interp_points u)))
      else Some (Inr unique_colours))"
  by pat_completeness auto
termination
  by (relation "measure (\<lambda>(i, interp_points, unique_colours). nat (5 - i))") auto

definition generate_unique_colours ::
  "colour list \<Rightarrow> colour list \<Rightarrow> (error + colour list) option" where
  "generate_unique_colours unique_colours interp_points = segments 0 interp_points unique_colours"

subsection \<open>\<^verbatim>\<open>generate_colour_map\<close>\<close>

text \<open>
  \<^verbatim>\<open>unique_colours.size() > max_iterations\<close> compares in \<^verbatim>\<open>size_t\<close>: the \<^verbatim>\<open>int\<close> is
  converted modulo \<open>2 ^ 64\<close>. The quotient of the first branch is a \<^verbatim>\<open>size_t\<close>
  division, converted to \<^verbatim>\<open>int\<close>; a division by zero is the value
  \<open>Inl division_by_zero\<close>.

  The step of the second branch is \<^verbatim>\<open>std::ceil(double(max_iterations) /
  double(unique_colours.size()))\<close>. Both conversions to \<^verbatim>\<open>double\<close> are exact (the
  operands are below \<open>2 ^ 53\<close>) and the division is correctly rounded. A quotient
  that is an integer is computed exactly; one that is not lies at least
  \<open>1 / size\<close> above the integer below it, which is more than the rounding error of
  a quotient below \<open>2 ^ 31\<close>, and rounding is monotonic, so the rounded quotient lies
  strictly above the integer below and at most at the integer above. The ceiling of
  the rounded quotient is therefore the ceiling of the exact quotient, which is what
  \<open>ceil_quotient\<close> computes.
\<close>

definition ceil_quotient :: "int \<Rightarrow> nat \<Rightarrow> int" where
  "ceil_quotient a b = \<lceil>real_of_int a / real b\<rceil>"

text \<open>The loop of the first branch (some unique colours are left out).\<close>

function sample_loop ::
  "int \<Rightarrow> int \<Rightarrow> colour list \<Rightarrow> int \<Rightarrow> int \<Rightarrow> colour list \<Rightarrow> error + colour list" where
  "sample_loop max_iterations step_size unique_colours i colour_index colour_map =
     (if i < max_iterations then
        (case vector_at unique_colours colour_index of
           Inl e \<Rightarrow> Inl e
         | Inr c \<Rightarrow>
             sample_loop max_iterations step_size unique_colours (i + 1)
               (wrap_int (colour_index + step_size)) (colour_map @ [c]))
      else Inr colour_map)"
  by pat_completeness auto
termination
  by (relation "measure (\<lambda>(max_iterations, step_size, unique_colours, i, colour_index, colour_map).
        nat (max_iterations - i))") auto

text \<open>The loop of the second branch (some unique colours are repeated). \<^verbatim>\<open>%\<close>
  truncates towards zero (\<open>smod\<close>); with a step of zero it is undefined.\<close>

function repeat_loop ::
  "int \<Rightarrow> int \<Rightarrow> colour list \<Rightarrow> int \<Rightarrow> int \<Rightarrow> colour list \<Rightarrow> error + colour list" where
  "repeat_loop max_iterations step_size unique_colours i colour_index colour_map =
     (if i < max_iterations then
        (case vector_at unique_colours colour_index of
           Inl e \<Rightarrow> Inl e
         | Inr c \<Rightarrow>
             if step_size = 0 then Inl division_by_zero
             else
               repeat_loop max_iterations step_size unique_colours (i + 1)
                 (if (i + 1) smod step_size = 0 then colour_index + 1 else colour_index)
                 (colour_map @ [c]))
      else Inr colour_map)"
  by pat_completeness auto
termination
  by (relation "measure (\<lambda>(max_iterations, step_size, unique_colours, i, colour_index, colour_map).
        nat (max_iterations - i))") auto

definition generate_colour_map ::
  "int \<Rightarrow> colour list \<Rightarrow> colour list \<Rightarrow> error + colour list" where
  "generate_colour_map max_iterations unique_colours colour_map =
     (if int (length unique_colours) > max_iterations mod 2 ^ 64 then
        (if max_iterations mod 2 ^ 64 = 0 then Inl division_by_zero
         else
           let step_size = wrap_int (int (length unique_colours) div (max_iterations mod 2 ^ 64))
           in sample_loop max_iterations step_size unique_colours 0 0 colour_map)
      else
        let step_size = ceil_quotient max_iterations (length unique_colours)
        in repeat_loop max_iterations step_size unique_colours 0 0 colour_map)"

section \<open>Escape-time iteration and frame renderer (\<^verbatim>\<open>drawMandelbrot\<close>)\<close>

text \<open>
  The \<^verbatim>\<open>while\<close> loop of one pixel. \<^verbatim>\<open>zr\<close> and \<^verbatim>\<open>zi\<close> are 64-bit, \<^verbatim>\<open>modulus_sq\<close> is
  the same 64 bits read as unsigned, and the comparison with \<^verbatim>\<open>4ULL << FRAC_BITS\<close> is
  unsigned. \<^verbatim>\<open>x_fixed\<close> and \<^verbatim>\<open>y_fixed\<close> are sign-extended to 64 bits before they are
  added. The loop returns the final \<^verbatim>\<open>iterations\<close>, the one variable read after it.
\<close>

function escape_loop ::
  "fixed_32 \<Rightarrow> fixed_32 \<Rightarrow> int \<Rightarrow> int \<Rightarrow> fixed_64 \<Rightarrow> fixed_64 \<Rightarrow> unsigned_fixed_64 \<Rightarrow> int" where
  "escape_loop x_fixed y_fixed max_iterations iterations zr zi modulus_sq =
     (if modulus_sq \<le> push_bit FRAC_BITS 4 \<and> iterations < max_iterations then
        let modulus_sq' = fixed_mult zr zr + fixed_mult zi zi;
            temp = fixed_mult zr zr - fixed_mult zi zi + scast x_fixed;
            zi' = push_bit 1 (fixed_mult zr zi) + scast y_fixed
        in escape_loop x_fixed y_fixed max_iterations (iterations + 1) temp zi' modulus_sq'
      else iterations)"
  by pat_completeness auto
termination
  by (relation "measure (\<lambda>(x_fixed, y_fixed, max_iterations, iterations, zr, zi, modulus_sq).
        nat (max_iterations - iterations))") auto

text \<open>The body of the inner \<^verbatim>\<open>for\<close> loop: the colour stored in the frame buffer for
  the sample point \<open>(x_fixed, y_fixed)\<close>.\<close>

definition pixel :: "fixed_32 \<Rightarrow> fixed_32 \<Rightarrow> int \<Rightarrow> colour list \<Rightarrow> error + colour" where
  "pixel x_fixed y_fixed max_iterations colour_map =
     (let iterations = escape_loop x_fixed y_fixed max_iterations 0 0 0 0
      in if iterations < max_iterations
         then vector_at colour_map (get_spread_colour_index iterations max_iterations)
         else Inr 0)"

type_synonym framebuffer = "colour list list"

text \<open>The inner \<^verbatim>\<open>for\<close> loop, over the columns of row \<open>y\<close> from column \<open>x\<close> on.\<close>

function draw_row ::
  "nat \<Rightarrow> nat \<Rightarrow> fixed_32 \<Rightarrow> fixed_32 \<Rightarrow> fixed_32 \<Rightarrow> int \<Rightarrow> colour list \<Rightarrow> framebuffer
    \<Rightarrow> error + framebuffer" where
  "draw_row y x x_fixed y_fixed inc_fixed max_iterations colour_map framebuffer =
     (if x < XSIZE then
        (case pixel x_fixed y_fixed max_iterations colour_map of
           Inl e \<Rightarrow> Inl e
         | Inr c \<Rightarrow>
             draw_row y (x + 1) (x_fixed + inc_fixed) y_fixed inc_fixed max_iterations colour_map
               (framebuffer[y := (framebuffer ! y)[x := c]]))
      else Inr framebuffer)"
  by pat_completeness auto
termination
  by (relation "measure (\<lambda>(y, x, x_fixed, y_fixed, inc_fixed, max_iterations, colour_map,
        framebuffer). XSIZE - x)") auto

text \<open>The outer \<^verbatim>\<open>for\<close> loop, from row \<open>y\<close> on; every row starts again at
  \<^verbatim>\<open>x_start\<close>.\<close>

function draw_rows ::
  "nat \<Rightarrow> fixed_32 \<Rightarrow> fixed_32 \<Rightarrow> fixed_32 \<Rightarrow> int \<Rightarrow> colour list \<Rightarrow> framebuffer
    \<Rightarrow> error + framebuffer" where
  "draw_rows y x_start y_fixed inc_fixed max_iterations colour_map framebuffer =
     (if y < YSIZE then
        (case draw_row y 0 x_start y_fixed inc_fixed max_iterations colour_map framebuffer of
           Inl e \<Rightarrow> Inl e
         | Inr framebuffer' \<Rightarrow>
             draw_rows (y + 1) x_start (y_fixed - inc_fixed) inc_fixed max_iterations colour_map
               framebuffer')
      else Inr framebuffer)"
  by pat_completeness auto
termination
  by (relation "measure (\<lambda>(y, x_start, y_fixed, inc_fixed, max_iterations, colour_map,
        framebuffer). YSIZE - y)") auto

definition drawMandelbrot ::
  "fixed_32 \<Rightarrow> fixed_32 \<Rightarrow> fixed_32 \<Rightarrow> int \<Rightarrow> framebuffer \<Rightarrow> colour list \<Rightarrow> error + framebuffer" where
  "drawMandelbrot x_fixed y_fixed inc_fixed max_iterations framebuffer colour_map =
     draw_rows 0 x_fixed y_fixed inc_fixed max_iterations colour_map framebuffer"

section \<open>One test case of \<^verbatim>\<open>main\<close>\<close>

text \<open>
  The body of the \<^verbatim>\<open>while\<close> loop of \<^verbatim>\<open>main\<close> after the record is read, up to the frame
  buffer that is handed to the writers. \<^verbatim>\<open>center_x\<close> and \<^verbatim>\<open>center_y\<close> are read as
  \<^verbatim>\<open>fixed_64\<close> and narrowed to \<^verbatim>\<open>fixed_32\<close> in the call of \<^verbatim>\<open>center_coords\<close>. The frame
  buffer starts grey (\<^verbatim>\<open>0x7BEF\<close>).
\<close>

definition render_test_case ::
  "fixed_64 \<Rightarrow> fixed_64 \<Rightarrow> int \<Rightarrow> int \<Rightarrow> colour \<Rightarrow> colour \<Rightarrow> colour \<Rightarrow> colour \<Rightarrow> colour \<Rightarrow> colour
    \<Rightarrow> (error + framebuffer) option" where
  "render_test_case center_x center_y zoom max_iterations c1 c2 c3 c4 c5 c6 =
     (let max_iterations' = clamp_max_iterations max_iterations;
          interp_points = [c1, c2, c3, c4, c5, c6]
      in case generate_unique_colours [] interp_points of
           None \<Rightarrow> None
         | Some (Inl e) \<Rightarrow> Some (Inl e)
         | Some (Inr unique_colours) \<Rightarrow>
            (case generate_colour_map max_iterations' unique_colours [] of
               Inl e \<Rightarrow> Some (Inl e)
             | Inr colour_map \<Rightarrow>
                 let framebuffer = replicate YSIZE (replicate XSIZE (0x7BEF :: colour));
                     c = center_coords (ucast center_x) (ucast center_y) zoom
                 in Some (drawMandelbrot (c_x c) (c_y c) (c_step c) max_iterations'
                            framebuffer colour_map)))"

section \<open>Notions used to state the properties\<close>

text \<open>
  None of the following is code of the program. \<open>approach s t k\<close> is the value of a
  component that starts at \<open>s\<close> and moves towards \<open>t\<close> by one per pass, after \<open>k\<close>
  passes; it stops at \<open>t\<close>. \<open>distance s t\<close> is the number of passes it needs.
\<close>

definition approach :: "nat \<Rightarrow> nat \<Rightarrow> nat \<Rightarrow> nat" where
  "approach s t k = (if s \<le> t then min (s + k) t else max (s - k) t)"

definition distance :: "nat \<Rightarrow> nat \<Rightarrow> nat" where
  "distance s t = (if s \<le> t then t - s else s - t)"

definition component_at :: "colour \<Rightarrow> colour \<Rightarrow> nat \<Rightarrow> colour" where
  "component_at s t k = of_nat (approach (unat s) (unat t) k)"

text \<open>The colour between the anchors \<open>s\<close> and \<open>e\<close> after \<open>k\<close> passes, the greatest of
  the three distances between them, and the colours of the whole segment.\<close>

definition pass_colour :: "colour \<Rightarrow> colour \<Rightarrow> nat \<Rightarrow> colour" where
  "pass_colour s e k =
     push_bit 11 (component_at (RED s) (RED e) k)
     OR push_bit 5 (component_at (GREEN s) (GREEN e) k)
     OR component_at (BLUE s) (BLUE e) k"

definition passes :: "colour \<Rightarrow> colour \<Rightarrow> nat" where
  "passes s e =
     max (distance (unat (RED s)) (unat (RED e)))
       (max (distance (unat (GREEN s)) (unat (GREEN e)))
            (distance (unat (BLUE s)) (unat (BLUE e))))"

definition segment_colours :: "colour \<Rightarrow> colour \<Rightarrow> colour list" where
  "segment_colours s e = map (pass_colour s e) [0..<Suc (passes s e)]"

text \<open>The increment that \<^verbatim>\<open>generate_unique_colours\<close> computes for a component.\<close>

definition increment :: "colour \<Rightarrow> colour \<Rightarrow> int" where
  "increment s t = (if uint t - uint s > 0 then 1 else - 1)"

text \<open>
  A list of colours is monotonic in the channel \<open>ch\<close> between the anchors \<open>s\<close> and \<open>e\<close>
  when the channel never turns back (it is sorted upwards when the end anchor's value
  is not below the start anchor's, downwards otherwise) and never leaves the interval
  between the two anchors' values. A segment is monotonic when it starts with the
  start anchor, ends with the end anchor, holds the end anchor nowhere before its
  end, and is monotonic in the three channels.
\<close>

definition monotonic_channel :: "(colour \<Rightarrow> colour) \<Rightarrow> colour \<Rightarrow> colour \<Rightarrow> colour list \<Rightarrow> bool" where
  "monotonic_channel ch s e cs =
     ((if ch s \<le> ch e then sorted (map ch cs) else sorted (rev (map ch cs)))
      \<and> list_all (\<lambda>c. min (ch s) (ch e) \<le> ch c \<and> ch c \<le> max (ch s) (ch e)) cs)"

definition monotonic_segment :: "colour \<Rightarrow> colour \<Rightarrow> colour list \<Rightarrow> bool" where
  "monotonic_segment s e cs =
     (cs \<noteq> [] \<and> hd cs = s \<and> last cs = e \<and> e \<notin> set (butlast cs)
      \<and> monotonic_channel RED s e cs \<and> monotonic_channel GREEN s e cs
      \<and> monotonic_channel BLUE s e cs)"

text \<open>
  The position of the unique colour that slot \<open>i\<close> of the colour map takes, for
  \<open>m\<close> slots and \<open>n\<close> unique colours: with more unique colours than slots the stride
  is \<open>floor (n / m)\<close> and slot \<open>i\<close> takes position \<open>i * stride\<close>; otherwise the
  stride is \<open>ceil (m / n)\<close> and the position advances by one every stride slots.
\<close>

definition read_index :: "nat \<Rightarrow> nat \<Rightarrow> nat \<Rightarrow> nat" where
  "read_index m n i = (if n > m then i * (n div m) else i div ((m + n - 1) div n))"

text \<open>
  Symmetry of a frame about its centre pixel, which is column 320 of row 240 (the
  sample point of the centre of the view): column \<open>320 - d\<close> equals column
  \<open>320 + d\<close> in every row, and row \<open>240 - d\<close> equals row \<open>240 + d\<close> in every column.
  Symmetry about the middle of the grid is \<open>map rev fb = fb\<close> (left and right halves)
  and \<open>rev fb = fb\<close> (upper and lower halves).
\<close>

definition symmetric_about_centre_column :: "framebuffer \<Rightarrow> bool" where
  "symmetric_about_centre_column fb =
     (\<forall>y \<in> {0..<YSIZE}. \<forall>d \<in> {1..<320}. fb ! y ! (320 - d) = fb ! y ! (320 + d))"

definition symmetric_about_centre_row :: "framebuffer \<Rightarrow> bool" where
  "symmetric_about_centre_row fb =
     (\<forall>x \<in> {0..<XSIZE}. \<forall>d \<in> {1..<240}. fb ! (240 - d) ! x = fb ! (240 + d) ! x)"


section \<open>Properties of the fixed-point kernel\<close>

lemma sint_fixed_mult:
  assumes "- (2 ^ 63) \<le> sint a * sint b" and "sint a * sint b < 2 ^ 63"
  shows "sint (fixed_mult a b) = (sint a * sint b) div 2 ^ 29"
  using assms
  by (simp add: fixed_mult_def FRAC_BITS_def sint_signed_drop_bit_eq sint_word_mult
      signed_take_bit_int_eq_self drop_bit_eq_div)

lemma sint_fixed_32_range: "- (2 ^ 31) \<le> sint (x :: fixed_32) \<and> sint x < 2 ^ 31"
  using sint_ge [of x] sint_lt [of x] by simp

lemma sint_scast_fixed_32: "sint (scast (x :: fixed_32) :: fixed_64) = sint x"
  by (simp add: sint_up_scast is_up)

lemma fixed_32_product_range:
  "- (2 ^ 63) \<le> sint (x :: fixed_32) * sint (y :: fixed_32) \<and> sint x * sint y < 2 ^ 63"
proof -
  have "\<bar>sint x\<bar> \<le> 2 ^ 31" "\<bar>sint y\<bar> \<le> 2 ^ 31"
    using sint_fixed_32_range [of x] sint_fixed_32_range [of y] by auto
  then have "\<bar>sint x\<bar> * \<bar>sint y\<bar> \<le> 2 ^ 31 * 2 ^ 31"
    by (intro mult_mono) auto
  then have "\<bar>sint x * sint y\<bar> \<le> 2 ^ 62"
    by (simp add: abs_mult)
  then show ?thesis by auto
qed

text \<open>
  Claim C8. \<^verbatim>\<open>fixed_mult\<close> is the arithmetic right shift by 29 of the 64-bit product.
  Whenever the product of the two operands fits in 64 bits, the result is the product
  divided by \<open>2 ^ 29\<close> and rounded towards minus infinity (\<open>div\<close> on the integers);
  this is the case for every pair of 32-bit operands widened to 64 bits. In particular
  \<open>1.0 * 1.0 = 1.0\<close>: \<^verbatim>\<open>fixed_mult(1<<29, 1<<29) == 1<<29\<close>.
\<close>

theorem fixed_mult_q3_29:
  "fixed_mult a b = signed_drop_bit 29 (a * b)
   \<and> (- (2 ^ 63) \<le> sint a * sint b \<and> sint a * sint b < 2 ^ 63
        \<longrightarrow> sint (fixed_mult a b) = (sint a * sint b) div 2 ^ 29)
   \<and> sint (fixed_mult (scast x) (scast y)) = (sint (x :: fixed_32) * sint (y :: fixed_32)) div 2 ^ 29
   \<and> fixed_mult (push_bit 29 1) (push_bit 29 1) = push_bit 29 1"
proof (intro conjI impI)
  show "fixed_mult a b = signed_drop_bit 29 (a * b)"
    by (simp add: fixed_mult_def FRAC_BITS_def)
  show "sint (fixed_mult a b) = (sint a * sint b) div 2 ^ 29"
    if "- (2 ^ 63) \<le> sint a * sint b \<and> sint a * sint b < 2 ^ 63"
    using that by (simp add: sint_fixed_mult)
  show "sint (fixed_mult (scast x) (scast y)) = (sint x * sint y) div 2 ^ 29"
    using fixed_32_product_range [of x y]
    by (simp add: sint_fixed_mult sint_scast_fixed_32)
  show "fixed_mult (push_bit 29 1) (push_bit 29 1) = push_bit 29 1"
    by (simp add: fixed_mult_def FRAC_BITS_def)
qed

text \<open>The theorem at \<open>-3 * 5\<close> (the quotient \<open>-15 / 2 ^ 29\<close> is rounded down to
  \<open>-1\<close>, not towards zero) and at \<open>-1.5 * 0.5 = -0.75\<close> with widened operands.\<close>

theorem fixed_mult_q3_29_witness:
  "sint (fixed_mult (- 3) 5) = - 1 \<and> fixed_mult (push_bit 29 1) (push_bit 29 1) = push_bit 29 1
   \<and> sint (fixed_mult (scast (- 805306368 :: fixed_32)) (scast (268435456 :: fixed_32))) = - 402653184"
  using fixed_mult_q3_29 [of "- 3" 5 "- 805306368" 268435456] by simp

section \<open>Properties of the reset of \<^verbatim>\<open>max_iterations\<close>\<close>

lemma clamp_max_iterations_idem:
  "clamp_max_iterations (clamp_max_iterations m) = clamp_max_iterations m"
  by (simp add: clamp_max_iterations_def Let_def)

text \<open>
  Claim C9. Whatever integer a test-case record supplies, the value used afterwards
  lies in \<open>[1, 1023]\<close>: a value in that range is kept, and every value outside it,
  below 1 or above 1023, is reset to 1 (not to the nearest bound). The colour map and
  the frame are computed from the value after the reset only: a test case gives what
  the same test case gives with the reset value in its record.
\<close>

theorem clamp_max_iterations_reset:
  "1 \<le> clamp_max_iterations m \<and> clamp_max_iterations m \<le> 1023
   \<and> (1 \<le> m \<and> m \<le> 1023 \<longrightarrow> clamp_max_iterations m = m)
   \<and> (m < 1 \<or> 1023 < m \<longrightarrow> clamp_max_iterations m = 1)
   \<and> render_test_case cx cy zoom m c1 c2 c3 c4 c5 c6
       = render_test_case cx cy zoom (clamp_max_iterations m) c1 c2 c3 c4 c5 c6"
proof -
  have "render_test_case cx cy zoom m c1 c2 c3 c4 c5 c6
      = render_test_case cx cy zoom (clamp_max_iterations m) c1 c2 c3 c4 c5 c6"
    by (simp only: render_test_case_def clamp_max_iterations_idem)
  then show ?thesis
    by (simp add: clamp_max_iterations_def Let_def)
qed

theorem clamp_max_iterations_reset_witness:
  "clamp_max_iterations 50 = 50 \<and> clamp_max_iterations 1024 = 1 \<and> clamp_max_iterations 0 = 1
   \<and> clamp_max_iterations (- 7) = 1 \<and> clamp_max_iterations 5000 \<noteq> 1023"
  using clamp_max_iterations_reset [of 50] clamp_max_iterations_reset [of 1024]
    clamp_max_iterations_reset [of 0] clamp_max_iterations_reset [of "- 7"]
    clamp_max_iterations_reset [of 5000]
  by simp

section \<open>Properties of the spread index\<close>

lemma spread_factor_nonneg:
  "0 \<le> (m :: int) \<Longrightarrow> 0 \<le> drop_bit 4 m - drop_bit 5 m - drop_bit 6 m - drop_bit 10 m"
  by (simp add: drop_bit_eq_div)

lemma spread_factor_le:
  assumes "0 \<le> (m :: int)"
  shows "drop_bit 4 m - drop_bit 5 m - drop_bit 6 m - drop_bit 10 m \<le> drop_bit 4 m"
proof -
  have "0 \<le> m div 32" and "0 \<le> m div 64" and "0 \<le> m div 1024"
    using assms by (simp_all add: pos_imp_zdiv_nonneg_iff)
  then show ?thesis
    by (simp add: drop_bit_eq_div)
qed

lemma spread_product_fits:
  assumes "1 \<le> m" and "m \<le> 131072" and "0 \<le> i" and "i < m"
  shows "i * (drop_bit 4 m - drop_bit 5 m - drop_bit 6 m - drop_bit 10 m) \<le> INT_MAX"
proof -
  define f where "f = drop_bit 4 m - drop_bit 5 m - drop_bit 6 m - drop_bit 10 m"
  have "0 \<le> f"
    unfolding f_def using assms(1) by (intro spread_factor_nonneg) simp
  moreover have "f \<le> drop_bit 4 m"
    unfolding f_def using assms(1) by (intro spread_factor_le) simp
  moreover have "drop_bit 4 m \<le> (8192 :: int)"
    using assms(2) by (simp add: drop_bit_eq_div)
  ultimately have f: "0 \<le> f" "f \<le> 8192"
    by simp_all
  have "i * f \<le> 131072 * 8192"
    using assms(2,3,4) f by (intro mult_mono) simp_all
  then show ?thesis
    by (simp add: INT_MAX_def flip: f_def)
qed

text \<open>
  Claim C4. For every \<open>m \<ge> 1\<close> and every \<open>i\<close> with \<open>0 \<le> i < m\<close> the spread index lies
  in \<open>[0, m - 1]\<close>: it is \<open>i\<close> for \<open>m < 16\<close>, and for \<open>m \<ge> 16\<close> the product of \<open>i\<close> and
  the factor \<open>(m >> 4) - (m >> 5) - (m >> 6) - (m >> 10)\<close>, or \<open>m - 1\<close> when the product
  is not below \<open>m\<close>. The product is computed in \<^verbatim>\<open>int\<close>, and the statement is about the
  calls in which it does not overflow (an overflow is undefined in C++). This is so
  for every \<open>m\<close> up to \<open>131072\<close> with no further condition, hence for every value of
  \<^verbatim>\<open>max_iterations\<close> that \<^verbatim>\<open>main\<close> passes on, which lies in \<open>[1, 1023]\<close>, and for a
  greater \<open>m\<close> whenever the product is at most \<^verbatim>\<open>INT_MAX\<close>.
\<close>

theorem spread_index_in_range:
  assumes "1 \<le> m" and "0 \<le> i" and "i < m"
    and "m \<le> 131072
      \<or> i * (drop_bit 4 m - drop_bit 5 m - drop_bit 6 m - drop_bit 10 m) \<le> INT_MAX"
  shows "0 \<le> get_spread_colour_index i m \<and> get_spread_colour_index i m \<le> m - 1
    \<and> (m < 16 \<longrightarrow> get_spread_colour_index i m = i)
    \<and> (16 \<le> m \<longrightarrow> get_spread_colour_index i m =
          (let s = i * (drop_bit 4 m - drop_bit 5 m - drop_bit 6 m - drop_bit 10 m)
           in if s < m then s else m - 1))"
proof -
  define f where "f = drop_bit 4 m - drop_bit 5 m - drop_bit 6 m - drop_bit 10 m"
  have "0 \<le> f"
    unfolding f_def using assms(1) by (intro spread_factor_nonneg) simp
  then have nonneg: "0 \<le> i * f"
    using assms(2) by simp
  have "i * f \<le> INT_MAX"
    using assms(4) spread_product_fits [OF assms(1) _ assms(2,3)] by (auto simp add: f_def)
  then have "i * f < 2 ^ 31"
    by (simp add: INT_MAX_def)
  then have w: "wrap_int (i * f) = i * f"
    using nonneg by (simp add: wrap_int_def signed_take_bit_int_eq_self)
  show ?thesis
    using assms(1-3) nonneg w
    by (simp add: get_spread_colour_index_def Let_def flip: f_def)
qed

text \<open>The theorem at the largest value of \<^verbatim>\<open>max_iterations\<close> that \<^verbatim>\<open>main\<close> lets
  through (the factor is 17 there), below 16, and at \<open>m = 200000\<close>, where the factor
  is 2930 and the product \<open>14650\<close> fits.\<close>

theorem spread_index_in_range_witness:
  "get_spread_colour_index 1022 1023 = 1022 \<and> get_spread_colour_index 3 1023 = 51
   \<and> get_spread_colour_index 7 15 = 7 \<and> get_spread_colour_index 5 200000 = 14650"
  using spread_index_in_range [of 1023 1022] spread_index_in_range [of 1023 3]
    spread_index_in_range [of 15 7] spread_index_in_range [of 200000 5]
  by (simp add: INT_MAX_def Let_def)

section \<open>Properties of the coordinate mapper\<close>

lemma zoom_cases:
  "0 \<le> (z :: int) \<Longrightarrow> z \<le> 10 \<Longrightarrow>
    z = 0 \<or> z = 1 \<or> z = 2 \<or> z = 3 \<or> z = 4 \<or> z = 5 \<or> z = 6 \<or> z = 7 \<or> z = 8 \<or> z = 9 \<or> z = 10"
  by arith

lemma center_coords_reset:
  "center_coords cx cy zoom = center_coords cx cy (if zoom > 10 \<or> zoom < 0 then 0 else zoom)"
  by (simp add: center_coords_def)

lemma sint_fixed_32_diff:
  "- (2 ^ 31) \<le> sint a - sint b \<Longrightarrow> sint a - sint b < 2 ^ 31
    \<Longrightarrow> sint (a - b :: fixed_32) = sint a - sint b"
  by (simp add: sint_word_ariths signed_take_bit_int_eq_self)

lemma sint_fixed_32_sum:
  "- (2 ^ 31) \<le> sint a + sint b \<Longrightarrow> sint a + sint b < 2 ^ 31
    \<Longrightarrow> sint (a + b :: fixed_32) = sint a + sint b"
  by (simp add: sint_word_ariths signed_take_bit_int_eq_self)

lemma center_coords_in_range:
  assumes "0 \<le> z" and "z \<le> 10"
  shows "sint (c_step (center_coords cx cy z)) = BASE_INCREMENT_AMOUNT * 2 ^ nat (10 - z)
    \<and> c_x (center_coords cx cy z) = cx - 320 * c_step (center_coords cx cy z)
    \<and> c_y (center_coords cx cy z) = cy + 240 * c_step (center_coords cx cy z)
    \<and> sint (320 * c_step (center_coords cx cy z)) = 320 * sint (c_step (center_coords cx cy z))
    \<and> sint (240 * c_step (center_coords cx cy z)) = 240 * sint (c_step (center_coords cx cy z))
    \<and> 0 \<le> sint (c_step (center_coords cx cy z))"
  using zoom_cases [OF assms]
  by (elim disjE)
    (simp_all add: center_coords_def Let_def BASE_INCREMENT_AMOUNT_def XSIZE_def YSIZE_def
      drop_bit_eq_div)

text \<open>
  Claim C5. For every centre and every integer \<^verbatim>\<open>zoom\<close>, the step is
  \<open>BASE_INCREMENT_AMOUNT * 2 ^ (10 - zoom')\<close>, where \<open>zoom'\<close> is \<^verbatim>\<open>zoom\<close> with every value
  above 10 or below 0 reset to 0. The top-left point is \<open>center_x - 320 * step\<close> and
  \<open>center_y + 240 * step\<close> in the 32-bit arithmetic of \<^verbatim>\<open>fixed_32\<close>, and these are the
  integer difference and sum whenever those fit in 32 bits. \<^verbatim>\<open>zoom = 10\<close> gives the
  base step, \<^verbatim>\<open>zoom = 0\<close> gives 1024 times the base step, and \<^verbatim>\<open>zoom = 11\<close> gives the
  result of \<^verbatim>\<open>zoom = 0\<close>.
\<close>

theorem center_coords_step:
  "sint (c_step (center_coords cx cy zoom)) =
      BASE_INCREMENT_AMOUNT * 2 ^ nat (10 - (if zoom > 10 \<or> zoom < 0 then 0 else zoom))
   \<and> c_x (center_coords cx cy zoom) = cx - 320 * c_step (center_coords cx cy zoom)
   \<and> c_y (center_coords cx cy zoom) = cy + 240 * c_step (center_coords cx cy zoom)
   \<and> (- (2 ^ 31) \<le> sint cx - 320 * sint (c_step (center_coords cx cy zoom))
        \<longrightarrow> sint (c_x (center_coords cx cy zoom)) =
            sint cx - 320 * sint (c_step (center_coords cx cy zoom)))
   \<and> (sint cy + 240 * sint (c_step (center_coords cx cy zoom)) < 2 ^ 31
        \<longrightarrow> sint (c_y (center_coords cx cy zoom)) =
            sint cy + 240 * sint (c_step (center_coords cx cy zoom)))
   \<and> sint (c_step (center_coords cx cy 10)) = BASE_INCREMENT_AMOUNT
   \<and> sint (c_step (center_coords cx cy 0)) = BASE_INCREMENT_AMOUNT * 1024
   \<and> center_coords cx cy 11 = center_coords cx cy 0"
proof -
  define z where "z = (if zoom > 10 \<or> zoom < 0 then 0 else zoom)"
  define c where "c = center_coords cx cy z"
  have z: "0 \<le> z" "z \<le> 10"
    by (auto simp: z_def)
  have r: "center_coords cx cy zoom = c"
    unfolding z_def c_def by (rule center_coords_reset)
  note g = center_coords_in_range [OF z, of cx cy, folded c_def]
  have x: "sint (c_x c) = sint cx - 320 * sint (c_step c)"
    if "- (2 ^ 31) \<le> sint cx - 320 * sint (c_step c)"
  proof -
    have "sint (cx - 320 * c_step c) = sint cx - sint (320 * c_step c)"
      using that g sint_fixed_32_range [of cx] by (intro sint_fixed_32_diff) auto
    then show ?thesis using g by simp
  qed
  have y: "sint (c_y c) = sint cy + 240 * sint (c_step c)"
    if "sint cy + 240 * sint (c_step c) < 2 ^ 31"
  proof -
    have "sint (cy + 240 * c_step c) = sint cy + sint (240 * c_step c)"
      using that g sint_fixed_32_range [of cy] by (intro sint_fixed_32_sum) auto
    then show ?thesis using g by simp
  qed
  have a: "sint (c_step (center_coords cx cy 10)) = BASE_INCREMENT_AMOUNT"
    using center_coords_in_range [of 10 cx cy] by simp
  have b: "sint (c_step (center_coords cx cy 0)) = BASE_INCREMENT_AMOUNT * 1024"
    using center_coords_in_range [of 0 cx cy] by simp
  have c: "center_coords cx cy 11 = center_coords cx cy 0"
    using center_coords_reset [of cx cy 11] by simp
  show ?thesis
    unfolding z_def [symmetric] r
    using g x y a b c by blast
qed

text \<open>The theorem at the centre \<open>(0, 0)\<close> with \<^verbatim>\<open>zoom = 5\<close>, and at two values of
  \<^verbatim>\<open>zoom\<close> outside the range.\<close>

theorem center_coords_step_witness:
  "sint (c_step (center_coords 0 0 5)) = 128000
   \<and> sint (c_x (center_coords 0 0 5)) = - 40960000
   \<and> sint (c_y (center_coords 0 0 5)) = 30720000
   \<and> sint (c_step (center_coords 7 9 12)) = 4096000
   \<and> sint (c_step (center_coords 7 9 (- 3))) = 4096000"
proof -
  note t = center_coords_step [of 0 0 5]
  have s: "sint (c_step (center_coords 0 0 5)) = 128000"
    using t by (simp add: BASE_INCREMENT_AMOUNT_def)
  have "- (2 ^ 31) \<le> sint (0 :: fixed_32) - 320 * sint (c_step (center_coords 0 0 5))"
    by (simp add: s)
  then have "sint (c_x (center_coords 0 0 5)) =
      sint (0 :: fixed_32) - 320 * sint (c_step (center_coords 0 0 5))"
    using t by blast
  then have x: "sint (c_x (center_coords 0 0 5)) = - 40960000"
    by (simp add: s)
  have "sint (0 :: fixed_32) + 240 * sint (c_step (center_coords 0 0 5)) < 2 ^ 31"
    by (simp add: s)
  then have "sint (c_y (center_coords 0 0 5)) =
      sint (0 :: fixed_32) + 240 * sint (c_step (center_coords 0 0 5))"
    using t by blast
  then have y: "sint (c_y (center_coords 0 0 5)) = 30720000"
    by (simp add: s)
  have u: "sint (c_step (center_coords 7 9 12)) = 4096000"
    using center_coords_step [of 7 9 12] by (simp add: BASE_INCREMENT_AMOUNT_def)
  have v: "sint (c_step (center_coords 7 9 (- 3))) = 4096000"
    using center_coords_step [of 7 9 "- 3"] by (simp add: BASE_INCREMENT_AMOUNT_def)
  show ?thesis using s x y u v by simp
qed

section \<open>Properties of the escape-time iteration\<close>

lemma escape_loop_origin:
  "i \<le> m \<Longrightarrow> escape_loop 0 0 m i 0 0 0 = m"
proof (induction "nat (m - i)" arbitrary: i)
  case 0
  then show ?case by simp
next
  case (Suc k)
  then have "i < m" and "k = nat (m - (i + 1))" and "i + 1 \<le> m"
    by auto
  then show ?case
    using Suc.hyps(1) [of "i + 1"]
    by (simp add: fixed_mult_def)
qed

text \<open>
  Claim C3. At the sample point \<open>(0, 0)\<close>, for every \<^verbatim>\<open>max_iterations\<close> from 1 on, the
  loop runs until the iteration bound: the final \<^verbatim>\<open>iterations\<close> is \<^verbatim>\<open>max_iterations\<close>,
  and the pixel gets the colour 0, whatever the colour map.
\<close>

theorem origin_never_escapes:
  assumes "1 \<le> max_iterations"
  shows "escape_loop 0 0 max_iterations 0 0 0 0 = max_iterations
    \<and> pixel 0 0 max_iterations colour_map = Inr 0"
  using assms escape_loop_origin [of 0 max_iterations]
  by (simp add: pixel_def del: escape_loop.simps)

theorem origin_never_escapes_witness:
  "escape_loop 0 0 50 0 0 0 0 = 50 \<and> pixel 0 0 50 [] = Inr 0 \<and> pixel 0 0 1 [7, 8] = Inr 0"
  using origin_never_escapes [of 50 "[]"] origin_never_escapes [of 1 "[7, 8]"]
  by simp

section \<open>Properties of \<^verbatim>\<open>generate_unique_colours\<close>\<close>

subsection \<open>Components of a colour\<close>

lemma m31: "(0x1F :: colour) = mask 5" by (simp add: mask_eq_exp_minus_1)
lemma m63: "(0x3F :: colour) = mask 6" by (simp add: mask_eq_exp_minus_1)

lemma recombine_components:
  "push_bit 11 (RED c) OR push_bit 5 (GREEN c) OR BLUE c = c"
  unfolding RED_def GREEN_def BLUE_def m31 m63
  apply (rule bit_word_eqI)
  subgoal for n
    by (cases "n < 5"; cases "n < 11"; auto simp add: bit_simps)
  done

lemma RED_le: "RED c \<le> 31"
  unfolding RED_def by (rule word_and_le1)
lemma GREEN_le: "GREEN c \<le> 63"
  unfolding GREEN_def by (rule word_and_le1)
lemma BLUE_le: "BLUE c \<le> 31"
  unfolding BLUE_def by (rule word_and_le1)

lemma le_31_mask: "(r :: colour) \<le> 31 \<Longrightarrow> r AND mask 5 = r"
  by (rule less_mask_eq) (simp add: word_less_nat_alt word_le_nat_alt)
lemma le_63_mask: "(r :: colour) \<le> 63 \<Longrightarrow> r AND mask 6 = r"
  by (rule less_mask_eq) (simp add: word_less_nat_alt word_le_nat_alt)

lemma components_of_masked:
  fixes r g b :: colour
  defines "c \<equiv> push_bit 11 (r AND mask 5) OR push_bit 5 (g AND mask 6) OR (b AND mask 5)"
  shows "RED c = r AND mask 5" and "GREEN c = g AND mask 6" and "BLUE c = b AND mask 5"
  unfolding c_def RED_def GREEN_def BLUE_def m31 m63
  by (rule bit_word_eqI; auto simp add: bit_simps)+

lemma components_of_recombined:
  assumes "r \<le> 31" and "g \<le> 63" and "b \<le> 31"
  shows "RED (push_bit 11 r OR push_bit 5 g OR b) = r"
    and "GREEN (push_bit 11 r OR push_bit 5 g OR b) = g"
    and "BLUE (push_bit 11 r OR push_bit 5 g OR b) = b"
  using components_of_masked [of r g b] assms
  by (simp_all add: le_31_mask le_63_mask)

subsection \<open>One component on its way\<close>

lemma approach_positive: "approach s t k \<noteq> t \<Longrightarrow> \<not> s < t \<Longrightarrow> 0 < approach s t k"
  by (auto simp add: approach_def min_def max_def split: if_splits)

lemma approach_reached: "approach s t k = t \<longleftrightarrow> distance s t \<le> k"
  by (auto simp add: approach_def distance_def min_def max_def)

lemma approach_between: "approach s t k \<le> max s t"
  by (auto simp add: approach_def min_def max_def)

lemma unat_component_at: "unat (component_at s t k) = approach (unat s) (unat t) k"
proof -
  have "approach (unat s) (unat t) k \<le> max (unat s) (unat t)"
    by (rule approach_between)
  also have "\<dots> < 2 ^ 16"
    using unsigned_less [of s] unsigned_less [of t] by simp
  finally show ?thesis
    by (simp add: component_at_def unat_of_nat)
qed

lemma component_at_0: "component_at s t 0 = s"
  by (simp add: component_at_def approach_def)

lemma component_at_reached: "component_at s t k = t \<longleftrightarrow> distance (unat s) (unat t) \<le> k"
  by (simp add: word_unat_eq_iff unat_component_at approach_reached)

lemma component_at_le: "s \<le> b \<Longrightarrow> t \<le> b \<Longrightarrow> component_at s t k \<le> b"
  using approach_between [of "unat s" "unat t" k]
  by (simp add: word_le_nat_alt unat_component_at)

lemma uint_less_iff_unat: "uint (s :: colour) < uint (t :: colour) \<longleftrightarrow> unat s < unat t"
  using word_less_def [of s t] word_less_nat_alt [of s t] by simp

lemma approach_step_up:
  "approach s t k \<noteq> t \<Longrightarrow> s < t \<Longrightarrow> approach s t (Suc k) = approach s t k + 1"
  by (simp add: approach_def min_def max_def split: if_splits)

lemma approach_step_down:
  "approach s t k \<noteq> t \<Longrightarrow> \<not> s < t \<Longrightarrow> approach s t (Suc k) = approach s t k - 1"
  by (auto simp add: approach_def min_def max_def split: if_splits)

lemma component_at_step:
  "(if component_at s t k \<noteq> t
    then component_at s t k + word_of_int (if uint t - uint s > 0 then 1 else - 1)
    else component_at s t k) = component_at s t (Suc k)"
proof (cases "component_at s t k = t")
  case True
  then have "distance (unat s) (unat t) \<le> Suc k"
    by (simp add: component_at_reached)
  then have "component_at s t (Suc k) = t"
    by (simp add: component_at_reached)
  with True show ?thesis by simp
next
  case False
  then have ne: "approach (unat s) (unat t) k \<noteq> unat t"
    by (simp add: word_unat_eq_iff unat_component_at)
  show ?thesis
  proof (cases "unat s < unat t")
    case True
    then have "approach (unat s) (unat t) (Suc k) = approach (unat s) (unat t) k + 1"
      using ne by (intro approach_step_up)
    then have "component_at s t (Suc k) = component_at s t k + 1"
      by (simp add: component_at_def)
    then show ?thesis
      using False True by (simp add: uint_less_iff_unat)
  next
    case F: False
    then have "0 < approach (unat s) (unat t) k"
      using ne by (intro approach_positive)
    moreover have "approach (unat s) (unat t) (Suc k) = approach (unat s) (unat t) k - 1"
      using ne F by (intro approach_step_down)
    ultimately have "component_at s t (Suc k) = component_at s t k - 1"
      by (simp add: component_at_def of_nat_diff)
    then show ?thesis
      using False F by (simp add: uint_less_iff_unat)
  qed
qed

subsection \<open>The loop of one segment, and the five segments\<close>

lemma pass_colour_0: "pass_colour s e 0 = s"
  by (simp add: pass_colour_def component_at_0 recombine_components)

lemma components_of_pass_colour:
  "RED (pass_colour s e k) = component_at (RED s) (RED e) k"
  "GREEN (pass_colour s e k) = component_at (GREEN s) (GREEN e) k"
  "BLUE (pass_colour s e k) = component_at (BLUE s) (BLUE e) k"
  unfolding pass_colour_def
  by (intro components_of_recombined component_at_le RED_le GREEN_le BLUE_le)+

lemma pass_colour_reached: "pass_colour s e k = e \<longleftrightarrow> passes s e \<le> k"
proof
  assume "pass_colour s e k = e"
  then have "RED (pass_colour s e k) = RED e" "GREEN (pass_colour s e k) = GREEN e"
    "BLUE (pass_colour s e k) = BLUE e"
    by simp_all
  then show "passes s e \<le> k"
    by (simp add: components_of_pass_colour component_at_reached passes_def)
next
  assume "passes s e \<le> k"
  then have "component_at (RED s) (RED e) k = RED e" "component_at (GREEN s) (GREEN e) k = GREEN e"
    "component_at (BLUE s) (BLUE e) k = BLUE e"
    by (simp_all add: component_at_reached passes_def)
  then show "pass_colour s e k = e"
    by (simp add: pass_colour_def recombine_components)
qed

lemma interpolate_from_pass:
  assumes "k \<le> passes s e"
  shows "interpolate (increment (RED s) (RED e)) (increment (GREEN s) (GREEN e))
           (increment (BLUE s) (BLUE e)) e (pass_colour s e k)
           (component_at (RED s) (RED e) k) (component_at (GREEN s) (GREEN e) k)
           (component_at (BLUE s) (BLUE e) k) acc
         = Some (acc @ map (pass_colour s e) [Suc k..<Suc (passes s e)])"
  using assms
proof (induction "passes s e - k" arbitrary: k acc)
  case 0
  then have "pass_colour s e k = e" and "k = passes s e"
    by (simp_all add: pass_colour_reached)
  then show ?case
    by (subst interpolate.simps) simp
next
  case (Suc d)
  then have lt: "k < passes s e" and d: "d = passes s e - Suc k" and le: "Suc k \<le> passes s e"
    by simp_all
  have ne: "pass_colour s e k \<noteq> e"
    using lt by (simp add: pass_colour_reached)
  have up: "[Suc k..<Suc (passes s e)] = Suc k # [Suc (Suc k)..<Suc (passes s e)]"
    using le by (simp add: upt_conv_Cons)
  show ?case
    apply (subst interpolate.simps)
    apply (simp only: ne if_True Let_def not_False_eq_True)
    apply (simp only: component_at_step [unfolded increment_def [symmetric]] increment_def [symmetric])
    apply (simp only: pass_colour_def [symmetric])
    apply (simp only: Suc.hyps(1) [OF d le] up)
    apply simp
    done
qed

lemma segment_result: "segment s e acc = Some (acc @ segment_colours s e)"
proof -
  have "segment s e acc =
      interpolate (increment (RED s) (RED e)) (increment (GREEN s) (GREEN e))
        (increment (BLUE s) (BLUE e)) e (pass_colour s e 0)
        (component_at (RED s) (RED e) 0) (component_at (GREEN s) (GREEN e) 0)
        (component_at (BLUE s) (BLUE e) 0) (acc @ [s])"
    by (simp add: segment_def Let_def increment_def pass_colour_0 component_at_0)
  also have "\<dots> = Some ((acc @ [s]) @ map (pass_colour s e) [Suc 0..<Suc (passes s e)])"
    by (rule interpolate_from_pass) simp
  also have "(acc @ [s]) @ map (pass_colour s e) [Suc 0..<Suc (passes s e)] = acc @ segment_colours s e"
    by (simp add: segment_colours_def upt_conv_Cons pass_colour_0 del: upt_Suc)
  finally show ?thesis .
qed

declare segments.simps [simp del]

lemma segments_result:
  assumes "length pts = 6" and "i \<le> 5"
  shows "segments (int i) pts acc =
    Some (Inr (acc @ concat (map (\<lambda>j. segment_colours (pts ! j) (pts ! Suc j)) [i..<5])))"
  using assms(2)
proof (induction "5 - i" arbitrary: i acc)
  case 0
  then have "i = 5" by simp
  then show ?case
    by (subst segments.simps) simp
next
  case (Suc d)
  then have lt: "i < 5" and d: "d = 5 - Suc i" and le: "Suc i \<le> 5"
    by simp_all
  have a: "vector_at pts (int i) = Inr (pts ! i)"
    using lt assms(1) by (simp add: vector_at_def)
  have b: "vector_at pts (int i + 1) = Inr (pts ! Suc i)"
    using lt assms(1) by (simp add: vector_at_def nat_add_distrib)
  have up: "[i..<5] = i # [Suc i..<5]"
    using lt by (simp add: upt_conv_Cons)
  have "segments (int i) pts acc = segments (int i + 1) pts (acc @ segment_colours (pts ! i) (pts ! Suc i))"
    using lt by (subst segments.simps) (simp add: a b segment_result del: of_nat_Suc)
  then have "segments (int i) pts acc = segments (int (Suc i)) pts (acc @ segment_colours (pts ! i) (pts ! Suc i))"
    by (simp add: add.commute)
  then show ?case
    by (simp only: Suc.hyps(1) [OF d le] up) simp
qed

lemma generate_unique_colours_result:
  assumes "length pts = 6"
  shows "generate_unique_colours acc pts =
    Some (Inr (acc @ concat (map (\<lambda>j. segment_colours (pts ! j) (pts ! Suc j)) [0..<5])))"
  using segments_result [OF assms, of 0 acc] by (simp add: generate_unique_colours_def)

lemma distance_le: "s \<le> b \<Longrightarrow> t \<le> b \<Longrightarrow> distance s t \<le> b"
  by (auto simp add: distance_def)

lemma unat_RED_le: "unat (RED c) \<le> 31"
  using RED_le [of c] by (simp add: word_le_nat_alt)
lemma unat_GREEN_le: "unat (GREEN c) \<le> 63"
  using GREEN_le [of c] by (simp add: word_le_nat_alt)
lemma unat_BLUE_le: "unat (BLUE c) \<le> 31"
  using BLUE_le [of c] by (simp add: word_le_nat_alt)

lemma passes_le: "passes s e \<le> 63"
proof -
  have "distance (unat (RED s)) (unat (RED e)) \<le> 31"
    by (intro distance_le unat_RED_le)
  moreover have "distance (unat (GREEN s)) (unat (GREEN e)) \<le> 63"
    by (intro distance_le unat_GREEN_le)
  moreover have "distance (unat (BLUE s)) (unat (BLUE e)) \<le> 31"
    by (intro distance_le unat_BLUE_le)
  ultimately show ?thesis by (simp add: passes_def)
qed

lemma length_segment_colours: "length (segment_colours s e) = Suc (passes s e)"
  by (simp add: segment_colours_def)

lemma hd_segment_colours: "hd (segment_colours s e) = s"
  by (simp add: segment_colours_def upt_conv_Cons pass_colour_0 del: upt_Suc)

lemma segment_colours_not_Nil: "segment_colours s e \<noteq> []"
  by (simp add: segment_colours_def)

subsection \<open>Monotonicity\<close>

lemma approach_mono: "s \<le> t \<Longrightarrow> j \<le> k \<Longrightarrow> approach s t j \<le> approach s t k"
  by (simp add: approach_def min_def)

lemma approach_antimono: "\<not> s \<le> t \<Longrightarrow> j \<le> k \<Longrightarrow> approach s t k \<le> approach s t j"
  by (auto simp add: approach_def max_def)

lemma approach_bounds: "min s t \<le> approach s t k \<and> approach s t k \<le> max s t"
  by (auto simp add: approach_def min_def max_def)

lemma component_at_mono: "s \<le> t \<Longrightarrow> j \<le> k \<Longrightarrow> component_at s t j \<le> component_at s t k"
  by (simp add: word_le_nat_alt unat_component_at approach_mono)

lemma component_at_antimono:
  "\<not> s \<le> t \<Longrightarrow> j \<le> k \<Longrightarrow> component_at s t k \<le> component_at s t j"
  by (simp add: word_le_nat_alt unat_component_at approach_antimono)

lemma component_at_bounds:
  "min s t \<le> component_at s t k \<and> component_at s t k \<le> max s t"
  using approach_bounds [of "unat s" "unat t" k]
  by (auto simp add: word_le_nat_alt unat_component_at min_def max_def split: if_splits)

lemma sorted_component_at:
  "s \<le> t \<Longrightarrow> sorted (map (component_at s t) [0..<n])"
  unfolding sorted_map
  by (rule sorted_wrt_mono_rel [of _ "(\<le>)"]) (simp_all add: component_at_mono)

lemma sorted_rev_component_at:
  "\<not> s \<le> t \<Longrightarrow> sorted (rev (map (component_at s t) [0..<n]))"
  unfolding rev_map sorted_map sorted_wrt_rev
  by (rule sorted_wrt_mono_rel [of _ "(\<le>)"]) (simp_all add: component_at_antimono)

lemma monotonic_channel_component:
  assumes "\<And>k. ch (pass_colour s e k) = component_at (ch s) (ch e) k"
  shows "monotonic_channel ch s e (segment_colours s e)"
proof -
  have m: "map ch (segment_colours s e) = map (component_at (ch s) (ch e)) [0..<Suc (passes s e)]"
    by (simp add: segment_colours_def assms del: upt_Suc)
  show ?thesis
    unfolding monotonic_channel_def m
    using sorted_component_at [of "ch s" "ch e"] sorted_rev_component_at [of "ch s" "ch e"]
      component_at_bounds [of "ch s" "ch e"]
    by (simp add: segment_colours_def list_all_iff assms del: upt_Suc)
qed

lemma last_segment_colours: "last (segment_colours s e) = e"
proof -
  have "pass_colour s e (passes s e) = e"
    by (simp add: pass_colour_reached)
  then show ?thesis
    by (simp add: segment_colours_def last_map del: upt_Suc) 
qed

lemma end_not_in_butlast: "e \<notin> set (butlast (segment_colours s e))"
proof
  assume "e \<in> set (butlast (segment_colours s e))"
  moreover have "butlast (segment_colours s e) = map (pass_colour s e) [0..<passes s e]"
    by (simp add: segment_colours_def map_butlast [symmetric])
  ultimately have "e \<in> pass_colour s e ` {0..<passes s e}"
    by simp
  then obtain k where k: "k \<in> {0..<passes s e}" "e = pass_colour s e k"
    by (rule imageE)
  then have "passes s e \<le> k"
    using pass_colour_reached [of s e k] by simp
  with k(1) show False by simp
qed

lemma monotonic_segment_colours: "monotonic_segment s e (segment_colours s e)"
  unfolding monotonic_segment_def
  by (intro conjI segment_colours_not_Nil hd_segment_colours last_segment_colours
      end_not_in_butlast monotonic_channel_component components_of_pass_colour)

lemma upt_0_5: "[0..<5] = [0, 1, 2, 3, 4]"
  by (simp add: upt_rec)

lemma length_generated:
  "length (concat (map (\<lambda>j. segment_colours (pts ! j) (pts ! Suc j)) [0..<5])) \<le> 320"
  using passes_le [of "pts ! 0" "pts ! Suc 0"] passes_le [of "pts ! 1" "pts ! Suc 1"]
    passes_le [of "pts ! 2" "pts ! Suc 2"] passes_le [of "pts ! 3" "pts ! Suc 3"]
    passes_le [of "pts ! 4" "pts ! Suc 4"]
  by (simp add: upt_0_5 length_segment_colours)

lemma unat_components_of_pass_colour:
  "unat (RED (pass_colour s e k)) = approach (unat (RED s)) (unat (RED e)) k"
  "unat (GREEN (pass_colour s e k)) = approach (unat (GREEN s)) (unat (GREEN e)) k"
  "unat (BLUE (pass_colour s e k)) = approach (unat (BLUE s)) (unat (BLUE e)) k"
  by (simp_all add: components_of_pass_colour unat_component_at)

text \<open>
  Claim C10. The loop of a segment returns, for every start and end colour and every
  vector: it appends \<open>1 + passes s e\<close> colours, where \<open>passes s e\<close>, the greatest of
  the three distances between the components of the anchors, is at most 63. In the
  colour appended after \<open>k\<close> passes every component has moved by one per pass towards
  the end anchor's component and stopped there, and that colour is the end anchor at
  the last pass and not before. So for six anchors \<^verbatim>\<open>generate_unique_colours\<close> returns
  a non-empty vector of at most 320 colours whose first element is the first anchor.
\<close>

theorem generate_unique_colours_terminates:
  "(\<exists>seg. segment s e acc = Some (acc @ seg)
      \<and> length seg = Suc (passes s e)
      \<and> passes s e \<le> 63
      \<and> (\<forall>k \<le> passes s e.
            unat (RED (seg ! k)) = approach (unat (RED s)) (unat (RED e)) k
          \<and> unat (GREEN (seg ! k)) = approach (unat (GREEN s)) (unat (GREEN e)) k
          \<and> unat (BLUE (seg ! k)) = approach (unat (BLUE s)) (unat (BLUE e)) k
          \<and> (seg ! k = e \<longleftrightarrow> k = passes s e)))
   \<and> (length interp_points = 6 \<longrightarrow>
        (\<exists>unique_colours.
            generate_unique_colours [] interp_points = Some (Inr unique_colours)
          \<and> unique_colours \<noteq> [] \<and> hd unique_colours = interp_points ! 0
          \<and> length unique_colours \<le> 320))"
proof (intro conjI impI)
  have nth: "segment_colours s e ! k = pass_colour s e k" if "k \<le> passes s e" for k
    using that by (simp add: segment_colours_def nth_map_upt del: upt_Suc)
  have "\<forall>k \<le> passes s e.
          unat (RED (segment_colours s e ! k)) = approach (unat (RED s)) (unat (RED e)) k
        \<and> unat (GREEN (segment_colours s e ! k)) = approach (unat (GREEN s)) (unat (GREEN e)) k
        \<and> unat (BLUE (segment_colours s e ! k)) = approach (unat (BLUE s)) (unat (BLUE e)) k
        \<and> (segment_colours s e ! k = e \<longleftrightarrow> k = passes s e)"
    by (auto simp add: nth unat_components_of_pass_colour pass_colour_reached)
  then show "\<exists>seg. segment s e acc = Some (acc @ seg)
      \<and> length seg = Suc (passes s e)
      \<and> passes s e \<le> 63
      \<and> (\<forall>k \<le> passes s e.
            unat (RED (seg ! k)) = approach (unat (RED s)) (unat (RED e)) k
          \<and> unat (GREEN (seg ! k)) = approach (unat (GREEN s)) (unat (GREEN e)) k
          \<and> unat (BLUE (seg ! k)) = approach (unat (BLUE s)) (unat (BLUE e)) k
          \<and> (seg ! k = e \<longleftrightarrow> k = passes s e))"
    using segment_result [of s e acc] length_segment_colours [of s e] passes_le [of s e]
    by blast
next
  assume len: "length interp_points = 6"
  define u where "u = concat (map (\<lambda>j. segment_colours (interp_points ! j) (interp_points ! Suc j)) [0..<5])"
  have "generate_unique_colours [] interp_points = Some (Inr u)"
    using generate_unique_colours_result [OF len, of "[]"] by (simp add: u_def)
  moreover have "u \<noteq> []"
    by (simp add: u_def upt_0_5 segment_colours_not_Nil)
  moreover have "hd u = interp_points ! 0"
    by (simp add: u_def upt_0_5 segment_colours_not_Nil hd_segment_colours)
  moreover have "length u \<le> 320"
    unfolding u_def by (rule length_generated)
  ultimately show "\<exists>unique_colours.
            generate_unique_colours [] interp_points = Some (Inr unique_colours)
          \<and> unique_colours \<noteq> [] \<and> hd unique_colours = interp_points ! 0
          \<and> length unique_colours \<le> 320"
    by blast
qed

text \<open>The theorem at the second segment of the black to white ramp, and at the
  ramp.\<close>

theorem generate_unique_colours_terminates_witness:
  "segment 0x2104 0x4208 [7] = Some [7, 8452, 10533, 12614, 14695, 16776, 16808, 16840, 16872, 16904]
   \<and> passes 0x2104 0x4208 = 8
   \<and> (\<exists>unique_colours.
         generate_unique_colours [] [0x0000, 0x2104, 0x4208, 0x630C, 0x8410, 0xFFFF]
           = Some (Inr unique_colours)
       \<and> unique_colours \<noteq> [] \<and> hd unique_colours = 0 \<and> length unique_colours \<le> 320)"
proof -
  note t = generate_unique_colours_terminates
    [of "0x2104" "0x4208" "[7]" "[0x0000, 0x2104, 0x4208, 0x630C, 0x8410, 0xFFFF]"]
  have a: "segment 0x2104 0x4208 [7]
      = Some [7, 8452, 10533, 12614, 14695, 16776, 16808, 16840, 16872, 16904]"
    by code_simp
  from t obtain seg where "segment 0x2104 0x4208 [7] = Some ([7] @ seg)"
    and "length seg = Suc (passes 0x2104 0x4208)"
    by blast
  with a have b: "passes 0x2104 0x4208 = 8"
    by auto
  have "length [0x0000, 0x2104, 0x4208, 0x630C, 0x8410, 0xFFFF :: colour] = 6"
    by simp
  with t have "\<exists>unique_colours.
         generate_unique_colours [] [0x0000, 0x2104, 0x4208, 0x630C, 0x8410, 0xFFFF]
           = Some (Inr unique_colours)
       \<and> unique_colours \<noteq> [] \<and> hd unique_colours = [0x0000, 0x2104, 0x4208, 0x630C, 0x8410, 0xFFFF] ! 0
       \<and> length unique_colours \<le> 320"
    by blast
  then show ?thesis using a b by simp
qed

text \<open>
  Claim C6. For six anchors, the vector that \<^verbatim>\<open>generate_unique_colours\<close> returns is the
  five segments one after the other, and every segment is monotonic: it starts with
  its start anchor, ends with its end anchor, which it holds nowhere before, and in
  each of the red, green and blue channels it runs from the start anchor's value to the
  end anchor's value without turning back and without leaving the interval between
  the two.
\<close>

theorem segments_monotonic:
  assumes "length interp_points = 6"
  shows "\<exists>segs. length segs = 5
     \<and> generate_unique_colours [] interp_points = Some (Inr (concat segs))
     \<and> (\<forall>i<5. segment (interp_points ! i) (interp_points ! Suc i) [] = Some (segs ! i)
              \<and> monotonic_segment (interp_points ! i) (interp_points ! Suc i) (segs ! i))"
proof -
  define segs where
    "segs = map (\<lambda>j. segment_colours (interp_points ! j) (interp_points ! Suc j)) [0..<5]"
  have "length segs = 5"
    by (simp add: segs_def)
  moreover have "generate_unique_colours [] interp_points = Some (Inr (concat segs))"
    using generate_unique_colours_result [OF assms, of "[]"] by (simp add: segs_def)
  moreover have "segment (interp_points ! i) (interp_points ! Suc i) [] = Some (segs ! i)
      \<and> monotonic_segment (interp_points ! i) (interp_points ! Suc i) (segs ! i)"
    if "i < 5" for i
    using that segment_result [of "interp_points ! i" "interp_points ! Suc i" "[]"]
      monotonic_segment_colours [of "interp_points ! i" "interp_points ! Suc i"]
    by (simp add: segs_def nth_map_upt)
  ultimately show ?thesis by blast
qed

text \<open>The theorem at the third segment of six anchors, from pure red to pure green:
  red falls from 31 to 0 while green rises from 0 to 63.\<close>

theorem segments_monotonic_witness:
  "segment 0xF800 0x07E0 [] =
     Some [63488, 61472, 59456, 57440, 55424, 53408, 51392, 49376, 47360, 45344, 43328,
        41312, 39296, 37280, 35264, 33248, 31232, 29216, 27200, 25184,
        23168, 21152, 19136, 17120, 15104, 13088, 11072, 9056, 7040, 5024,
        3008, 992, 1024, 1056, 1088, 1120, 1152, 1184, 1216, 1248, 1280,
        1312, 1344, 1376, 1408, 1440, 1472, 1504, 1536, 1568, 1600, 1632,
        1664, 1696, 1728, 1760, 1792, 1824, 1856, 1888, 1920, 1952, 1984,
        2016]
   \<and> monotonic_segment 0xF800 0x07E0
       [63488, 61472, 59456, 57440, 55424, 53408, 51392, 49376, 47360, 45344, 43328,
        41312, 39296, 37280, 35264, 33248, 31232, 29216, 27200, 25184,
        23168, 21152, 19136, 17120, 15104, 13088, 11072, 9056, 7040, 5024,
        3008, 992, 1024, 1056, 1088, 1120, 1152, 1184, 1216, 1248, 1280,
        1312, 1344, 1376, 1408, 1440, 1472, 1504, 1536, 1568, 1600, 1632,
        1664, 1696, 1728, 1760, 1792, 1824, 1856, 1888, 1920, 1952, 1984,
        2016]"
proof -
  have "length [0xF800, 0x001F, 0xF800, 0x07E0, 0x0000, 0xFFFF :: colour] = 6"
    by simp
  from segments_monotonic [OF this] obtain segs where
    s: "\<forall>i<5. segment ([0xF800, 0x001F, 0xF800, 0x07E0, 0x0000, 0xFFFF] ! i)
              ([0xF800, 0x001F, 0xF800, 0x07E0, 0x0000, 0xFFFF] ! Suc i) [] = Some (segs ! i)
          \<and> monotonic_segment ([0xF800, 0x001F, 0xF800, 0x07E0, 0x0000, 0xFFFF] ! i)
              ([0xF800, 0x001F, 0xF800, 0x07E0, 0x0000, 0xFFFF] ! Suc i) (segs ! i)"
    by blast
  have "(2::nat) < 5" by simp
  with s have "segment 0xF800 0x07E0 [] = Some (segs ! 2)
      \<and> monotonic_segment 0xF800 0x07E0 (segs ! 2)"
    by fastforce
  moreover have "segment 0xF800 0x07E0 [] =
     Some [63488, 61472, 59456, 57440, 55424, 53408, 51392, 49376, 47360, 45344, 43328,
        41312, 39296, 37280, 35264, 33248, 31232, 29216, 27200, 25184,
        23168, 21152, 19136, 17120, 15104, 13088, 11072, 9056, 7040, 5024,
        3008, 992, 1024, 1056, 1088, 1120, 1152, 1184, 1216, 1248, 1280,
        1312, 1344, 1376, 1408, 1440, 1472, 1504, 1536, 1568, 1600, 1632,
        1664, 1696, 1728, 1760, 1792, 1824, 1856, 1888, 1920, 1952, 1984,
        2016]"
    by code_simp
  ultimately show ?thesis by simp
qed

section \<open>Properties of \<^verbatim>\<open>generate_colour_map\<close>\<close>

declare sample_loop.simps [simp del]
declare repeat_loop.simps [simp del]

lemma wrap_int_small: "0 \<le> k \<Longrightarrow> k < 2 ^ 31 \<Longrightarrow> wrap_int k = k"
  by (simp add: wrap_int_def signed_take_bit_int_eq_self)

lemma sample_loop_result:
  assumes "\<forall>j<M. j * s < length us" and "M * s < 2 ^ 31" and "k \<le> M"
  shows "sample_loop (int M) (int s) us (int k) (int (k * s)) cm
    = Inr (cm @ map (\<lambda>j. us ! (j * s)) [k..<M])"
  using assms(3)
proof (induction "M - k" arbitrary: k cm)
  case 0
  then have "k = M" by simp
  then show ?case
    by (subst sample_loop.simps) simp
next
  case (Suc d)
  then have lt: "k < M" and d: "d = M - Suc k" and le: "Suc k \<le> M"
    by simp_all
  have rd: "vector_at us (int (k * s)) = Inr (us ! (k * s))"
    using assms(1) lt by (simp add: vector_at_def del: of_nat_mult)
  have "Suc k * s \<le> M * s"
    using le by (intro mult_le_mono1)
  then have "Suc k * s < 2 ^ 31"
    using assms(2) by linarith
  then have "int (Suc k * s) < int (2 ^ 31)"
    by (simp only: of_nat_less_iff)
  then have "int (Suc k * s) < 2 ^ 31"
    by simp
  then have w: "wrap_int (int (k * s) + int s) = int (Suc k * s)"
    by (subst wrap_int_small) (simp_all add: algebra_simps)
  have up: "[k..<M] = k # [Suc k..<M]"
    using lt by (simp add: upt_conv_Cons)
  have "sample_loop (int M) (int s) us (int k) (int (k * s)) cm
      = sample_loop (int M) (int s) us (int k + 1) (int (Suc k * s)) (cm @ [us ! (k * s)])"
    using lt by (subst sample_loop.simps) (simp add: rd w del: of_nat_mult of_nat_Suc)
  also have "int k + 1 = int (Suc k)"
    by simp
  finally show ?case
    by (simp only: Suc.hyps(1) [OF d le] up) simp
qed

lemma smod_nat: "int a smod int b = int (a mod b)"
  by (cases "a = 0") (simp_all add: signed_modulo_int_def zmod_int sgn_if)

lemma repeat_loop_result:
  assumes "\<forall>j<M. j div s < length us" and "0 < s" and "k \<le> M"
  shows "repeat_loop (int M) (int s) us (int k) (int (k div s)) cm
    = Inr (cm @ map (\<lambda>j. us ! (j div s)) [k..<M])"
  using assms(3)
proof (induction "M - k" arbitrary: k cm)
  case 0
  then have "k = M" by simp
  then show ?case
    by (subst repeat_loop.simps) simp
next
  case (Suc d)
  then have lt: "k < M" and d: "d = M - Suc k" and le: "Suc k \<le> M"
    by simp_all
  have rd: "vector_at us (int (k div s)) = Inr (us ! (k div s))"
    using assms(1) lt by (simp add: vector_at_def)
  have sm: "(int k + 1) smod int s = int (Suc k mod s)"
    using smod_nat [of "Suc k" s] by (simp add: add.commute)
  have up: "[k..<M] = k # [Suc k..<M]"
    using lt by (simp add: upt_conv_Cons)
  have e: "int (k div s) + 1 = int (Suc (k div s))"
    by simp
  have "repeat_loop (int M) (int s) us (int k) (int (k div s)) cm
      = repeat_loop (int M) (int s) us (int k + 1) (int (Suc k div s)) (cm @ [us ! (k div s)])"
    using lt assms(2)
    by (subst repeat_loop.simps) (simp add: rd sm div_Suc e del: of_nat_Suc)
  also have "int k + 1 = int (Suc k)"
    by simp
  finally show ?case
    by (simp only: Suc.hyps(1) [OF d le] up) simp
qed

lemma ceil_div_nat:
  assumes "0 < n"
  shows "(m + n - 1) div n = (if m mod n = 0 then m div n else Suc (m div n))"
proof -
  define q r where "q = m div n" and "r = m mod n"
  have m: "m = n * q + r" and r: "r < n"
    using assms by (simp_all add: q_def r_def)
  show ?thesis
  proof (cases "r = 0")
    case True
    have "(m + n - 1) div n = q"
      using m r True assms by (intro div_nat_eqI) simp_all
    then show ?thesis using True by (simp add: q_def r_def)
  next
    case False
    have "(m + n - 1) div n = Suc q"
      using m r False assms by (intro div_nat_eqI) simp_all
    then show ?thesis using False by (simp add: q_def r_def)
  qed
qed

lemma ceil_quotient_nat:
  assumes "0 < n"
  shows "ceil_quotient (int m) n = int ((m + n - 1) div n)"
proof -
  have "ceil_quotient (int m) n = - (- int m div int n)"
    unfolding ceil_quotient_def
    using ceiling_divide_eq_div [of "int m" "int n"] by simp
  also have "\<dots> = (if m mod n = 0 then int (m div n) else int (Suc (m div n)))"
    using assms by (simp add: zdiv_zminus1_eq_if flip: of_nat_mod of_nat_div)
  also have "\<dots> = int ((m + n - 1) div n)"
    using assms ceil_div_nat [of n m] by simp
  finally show ?thesis .
qed

lemma ceil_div_covers:
  assumes "0 < n" and "0 < m"
  shows "0 < (m + n - 1) div n \<and> (m :: nat) \<le> n * ((m + n - 1) div n)"
proof (cases "m mod n = 0")
  case True
  then have "n * (m div n) = m"
    by (simp add: mod_eq_0_iff_dvd)
  moreover from this have "0 < m div n"
    using assms(2) by (cases "m div n = 0") simp_all
  ultimately show ?thesis
    using True assms(1) ceil_div_nat [of n m] by simp
next
  case False
  have "m = n * (m div n) + m mod n"
    by simp
  moreover have "m mod n < n"
    using assms(1) by simp
  ultimately have "m \<le> n * (m div n) + n"
    by linarith
  then have "m \<le> n * Suc (m div n)"
    by simp
  then show ?thesis
    using False assms(1) ceil_div_nat [of n m] by simp
qed

lemma generated_length:
  assumes "length pts = 6" and "generate_unique_colours [] pts = Some (Inr us)"
  shows "0 < length us \<and> length us \<le> 320"
proof -
  have "us = concat (map (\<lambda>j. segment_colours (pts ! j) (pts ! Suc j)) [0..<5])"
    using generate_unique_colours_result [OF assms(1), of "[]"] assms(2) by simp
  moreover have "concat (map (\<lambda>j. segment_colours (pts ! j) (pts ! Suc j)) [0..<5]) \<noteq> []"
    by (simp add: upt_0_5 segment_colours_not_Nil)
  ultimately show ?thesis
    using length_generated [of pts] by simp
qed

lemma read_index_less:
  assumes "0 < n" and "0 < m" and "i < m"
  shows "read_index m n i < n"
proof (cases "n > m")
  case True
  have a: "m * (n div m) \<le> n"
    by simp
  have b: "0 < n div m"
    using True assms(2) by (simp add: div_greater_zero_iff)
  have "Suc i * (n div m) \<le> m * (n div m)"
    using assms(3) by (intro mult_le_mono1) simp
  then have "i * (n div m) + n div m \<le> m * (n div m)"
    by simp
  with a b have "i * (n div m) < n"
    by linarith
  then show ?thesis
    using True by (simp add: read_index_def)
next
  case False
  have "i < n * ((m + n - 1) div n)"
    using ceil_div_covers [OF assms(1,2)] assms(3) by linarith
  then have "i div ((m + n - 1) div n) < n"
    by (simp add: less_mult_imp_div_less mult.commute)
  then show ?thesis
    using False by (simp add: read_index_def)
qed

lemma int_less_2p31: "n < 2 ^ 31 \<Longrightarrow> int n < 2 ^ 31"
proof -
  assume "n < 2 ^ 31"
  then have "int n < int (2 ^ 31)"
    by (simp only: of_nat_less_iff)
  then show ?thesis by simp
qed

lemma generate_colour_map_result:
  assumes "0 < m" and "m < 2 ^ 31" and "0 < length us" and "length us < 2 ^ 31"
  shows "generate_colour_map (int m) us cm
    = Inr (cm @ map (\<lambda>i. us ! read_index m (length us) i) [0..<m])"
proof -
  define n where "n = length us"
  have "int m mod 2 ^ 64 = int m"
    using int_less_2p31 [OF assms(2)] by simp
  note m64 = this [simplified]
  have idx: "\<forall>j<m. read_index m n j < length us"
    using read_index_less [of n m] assms(1,3) by (simp add: n_def)
  show ?thesis
  proof (cases "n > m")
    case True
    define s where "s = n div m"
    have ri: "read_index m n j = j * s" for j
      using True by (simp add: read_index_def s_def)
    have "m * s \<le> n"
      by (simp add: s_def)
    then have ms: "m * s < 2 ^ 31"
      using assms(4) by (simp add: n_def)
    have "s \<le> n"
      by (simp add: s_def)
    then have "int s < 2 ^ 31"
      using assms(4) by (intro int_less_2p31) (simp add: n_def)
    then have "wrap_int (int s) = int s"
      by (intro wrap_int_small) simp_all
    then have w: "wrap_int (int n div int m) = int s"
      by (simp add: s_def zdiv_int)
    have "generate_colour_map (int m) us cm = sample_loop (int m) (int s) us 0 0 cm"
      using True assms(1) w
      by (simp add: generate_colour_map_def m64 Let_def flip: n_def)
    also have "\<dots> = sample_loop (int m) (int s) us (int 0) (int (0 * s)) cm"
      by simp
    also have "\<dots> = Inr (cm @ map (\<lambda>j. us ! (j * s)) [0..<m])"
      using idx ms by (intro sample_loop_result) (simp_all add: ri)
    finally show ?thesis
      by (simp add: ri flip: n_def)
  next
    case False
    define s where "s = (m + n - 1) div n"
    have ri: "read_index m n j = j div s" for j
      using False by (simp add: read_index_def s_def)
    have s: "0 < s"
      using ceil_div_covers [of n m] assms(1,3) by (simp add: s_def n_def)
    have c: "ceil_quotient (int m) n = int s"
      using assms(3) by (simp add: ceil_quotient_nat s_def n_def)
    have "generate_colour_map (int m) us cm = repeat_loop (int m) (int s) us 0 0 cm"
      using False c
      by (simp add: generate_colour_map_def m64 Let_def flip: n_def)
    also have "\<dots> = repeat_loop (int m) (int s) us (int 0) (int (0 div s)) cm"
      by simp
    also have "\<dots> = Inr (cm @ map (\<lambda>j. us ! (j div s)) [0..<m])"
      using idx s by (intro repeat_loop_result) (simp_all add: ri)
    finally show ?thesis
      by (simp add: ri flip: n_def)
  qed
qed

text \<open>
  Claim C1. For every \<^verbatim>\<open>max_iterations\<close> in \<open>[1, 1023]\<close> and every vector of unique
  colours that \<^verbatim>\<open>generate_unique_colours\<close> returns for six anchors,
  \<^verbatim>\<open>generate_colour_map\<close> returns a colour map, and its length is \<^verbatim>\<open>max_iterations\<close>.
\<close>

theorem colour_map_length:
  assumes "length interp_points = 6"
    and "1 \<le> max_iterations" and "max_iterations \<le> 1023"
    and "generate_unique_colours [] interp_points = Some (Inr unique_colours)"
  shows "\<exists>colour_map. generate_colour_map max_iterations unique_colours [] = Inr colour_map
    \<and> int (length colour_map) = max_iterations"
proof -
  define m where "m = nat max_iterations"
  have m: "max_iterations = int m" "0 < m" "m < 2 ^ 31"
    using assms(2,3) by (simp_all add: m_def)
  have "0 < length unique_colours" "length unique_colours < 2 ^ 31"
    using generated_length [OF assms(1,4)] by simp_all
  then have "generate_colour_map (int m) unique_colours []
      = Inr ([] @ map (\<lambda>i. unique_colours ! read_index m (length unique_colours) i) [0..<m])"
    using m(2,3) by (intro generate_colour_map_result)
  then show ?thesis
    by (simp add: m(1))
qed

text \<open>
  Claim C2. For every \<^verbatim>\<open>max_iterations\<close> in \<open>[1, 1023]\<close> and every vector of unique
  colours that \<^verbatim>\<open>generate_unique_colours\<close> returns for six anchors, the vector is not
  empty and \<^verbatim>\<open>generate_colour_map\<close> returns without an exception: slot \<open>i\<close> of the
  colour map holds the unique colour at position \<open>read_index\<close> (\<open>i * floor (n / m)\<close>
  in the first branch, \<open>i div ceil (m / n)\<close> in the second), every such position is
  below the length of the vector, and \<^verbatim>\<open>at\<close> returns the colour there.
\<close>

theorem colour_map_reads_in_range:
  assumes "length interp_points = 6"
    and "1 \<le> max_iterations" and "max_iterations \<le> 1023"
    and "generate_unique_colours [] interp_points = Some (Inr unique_colours)"
  shows "unique_colours \<noteq> []
    \<and> generate_colour_map max_iterations unique_colours [] =
        Inr (map (\<lambda>i. unique_colours ! read_index (nat max_iterations) (length unique_colours) i)
               [0..<nat max_iterations])
    \<and> (\<forall>i < nat max_iterations.
          read_index (nat max_iterations) (length unique_colours) i < length unique_colours
        \<and> vector_at unique_colours (int (read_index (nat max_iterations) (length unique_colours) i))
            = Inr (unique_colours ! read_index (nat max_iterations) (length unique_colours) i))"
proof -
  define m where "m = nat max_iterations"
  have m: "max_iterations = int m" "0 < m" "m < 2 ^ 31"
    using assms(2,3) by (simp_all add: m_def)
  have n: "0 < length unique_colours" "length unique_colours < 2 ^ 31"
    using generated_length [OF assms(1,4)] by simp_all
  have "generate_colour_map (int m) unique_colours []
      = Inr ([] @ map (\<lambda>i. unique_colours ! read_index m (length unique_colours) i) [0..<m])"
    using m(2,3) n by (intro generate_colour_map_result)
  moreover have "read_index m (length unique_colours) i < length unique_colours" if "i < m" for i
    using that n(1) m(2) by (intro read_index_less)
  ultimately show ?thesis
    using n(1) by (simp add: m(1) vector_at_def)
qed

text \<open>Six anchors with a short vector of unique colours: 8 colours, sampled into 3
  slots (first branch, stride 2) and repeated into 12 and 1023 slots (second
  branch).\<close>

lemma small_unique_colours:
  "generate_unique_colours [] [0x0000, 0x0001, 0x0001, 0x0002, 0x0002, 0x0003] =
    Some (Inr [0, 1, 1, 1, 2, 2, 2, 3])"
  by code_simp

theorem colour_map_length_witness:
  "(\<exists>colour_map. generate_colour_map 3 [0, 1, 1, 1, 2, 2, 2, 3] [] = Inr colour_map
       \<and> int (length colour_map) = 3)
   \<and> (\<exists>colour_map. generate_colour_map 1023 [0, 1, 1, 1, 2, 2, 2, 3] [] = Inr colour_map
       \<and> int (length colour_map) = 1023)"
proof -
  have len: "length [0x0000, 0x0001, 0x0001, 0x0002, 0x0002, 0x0003 :: colour] = 6"
    by simp
  have a: "(1::int) \<le> 3" "(3::int) \<le> 1023" "(1::int) \<le> 1023" "(1023::int) \<le> 1023"
    by simp_all
  show ?thesis
    using colour_map_length [OF len a(1) a(2) small_unique_colours]
      colour_map_length [OF len a(3) a(4) small_unique_colours]
    by blast
qed

theorem colour_map_reads_in_range_witness:
  "generate_colour_map 3 [0, 1, 1, 1, 2, 2, 2, 3] [] = Inr [0, 1, 2]
   \<and> generate_colour_map 12 [0, 1, 1, 1, 2, 2, 2, 3] [] = Inr [0, 0, 1, 1, 1, 1, 1, 1, 2, 2, 2, 2]
   \<and> read_index 3 8 2 = 4 \<and> read_index 12 8 11 = 5"
proof -
  have len: "length [0x0000, 0x0001, 0x0001, 0x0002, 0x0002, 0x0003 :: colour] = 6"
    by simp
  have a: "(1::int) \<le> 3" "(3::int) \<le> 1023" "(1::int) \<le> 12" "(12::int) \<le> 1023"
    by simp_all
  have l: "length [0, 1, 1, 1, 2, 2, 2, 3 :: colour] = 8"
    by simp
  note t3 = colour_map_reads_in_range [OF len a(1) a(2) small_unique_colours, unfolded l]
  note t12 = colour_map_reads_in_range [OF len a(3) a(4) small_unique_colours, unfolded l]
  have u: "[0..<3] = [0, 1, 2]" "[0..<12] = [0, 1, 2, 3, 4, 5, 6, 7, 8, 9, 10, 11]"
    by (simp_all add: upt_rec)
  have "generate_colour_map 3 [0, 1, 1, 1, 2, 2, 2, 3] [] = Inr [0, 1, 2]"
    using t3 by (simp add: u read_index_def)
  moreover have "generate_colour_map 12 [0, 1, 1, 1, 2, 2, 2, 3] []
      = Inr [0, 0, 1, 1, 1, 1, 1, 1, 2, 2, 2, 2]"
    using t12 by (simp add: u read_index_def)
  ultimately show ?thesis
    by (simp add: read_index_def)
qed

section \<open>Properties of the frame renderer\<close>

subsection \<open>Sample points that never escape\<close>

declare escape_loop.simps [simp del]

lemma product_quotient_bounds:
  fixes a b :: int
  assumes "\<bar>a\<bar> \<le> 2 ^ 27" and "\<bar>b\<bar> \<le> 2 ^ 27"
  shows "- (2 ^ 25) \<le> a * b div 2 ^ 29 \<and> a * b div 2 ^ 29 \<le> 2 ^ 25
    \<and> - (2 ^ 63) \<le> a * b \<and> a * b < 2 ^ 63"
proof -
  have "\<bar>a\<bar> * \<bar>b\<bar> \<le> 2 ^ 27 * 2 ^ 27"
    using assms by (intro mult_mono) auto
  then have p: "\<bar>a * b\<bar> \<le> 2 ^ 54"
    by (simp add: abs_mult)
  then have u: "a * b \<le> 2 ^ 54" and l: "- (2 ^ 54) \<le> a * b"
    by auto
  have "a * b div 2 ^ 29 \<le> 2 ^ 54 div 2 ^ 29"
    using u by (rule zdiv_mono1) simp
  moreover have "(- (2 ^ 54)) div 2 ^ 29 \<le> a * b div 2 ^ 29"
    using l by (rule zdiv_mono1) simp
  ultimately have "a * b div 2 ^ 29 \<le> 2 ^ 25" and "- (2 ^ 25) \<le> a * b div 2 ^ 29"
    by simp_all
  moreover have "- (2 ^ 63) \<le> a * b" and "a * b < 2 ^ 63"
    using u l by simp_all
  ultimately show ?thesis
    by blast
qed

lemma sint_fixed_64_sum:
  "- (2 ^ 63) \<le> sint a + sint b \<Longrightarrow> sint a + sint b < 2 ^ 63
    \<Longrightarrow> sint (a + b :: fixed_64) = sint a + sint b"
  by (simp add: sint_word_ariths signed_take_bit_int_eq_self)
lemma sint_fixed_64_double:
  assumes "- (2 ^ 62) \<le> sint a" and "sint a < 2 ^ 62"
  shows "sint (push_bit 1 a :: fixed_64) = 2 * sint a"
proof -
  have e: "push_bit 1 a = a + a"
    by (simp add: push_bit_eq_mult mult_2_right)
  have "sint (a + a) = sint a + sint a"
    using assms by (intro sint_fixed_64_sum) simp_all
  then show ?thesis
    unfolding e by simp
qed
lemma uint_of_nonneg_sint:
  "0 \<le> sint (w :: fixed_64) \<Longrightarrow> uint w = sint w"
proof -
  assume nonneg: "0 \<le> sint w"
  have "w = word_of_int (sint w)"
    using scast_eq [of w] by simp
  then have "uint w = uint (word_of_int (sint w) :: fixed_64)"
    by simp
  also have "\<dots> = take_bit 64 (sint w)"
    by (simp only: uint_word_of_int_eq) simp
  also have "\<dots> = sint w"
    using nonneg sint_lt [of w] by (intro take_bit_int_eq_self) simp_all
  finally show ?thesis .
qed
lemma square_quotient_nonneg: "0 \<le> (a :: int) * a div 2 ^ 29"
proof -
  have "0 \<le> a * a" by simp
  then show ?thesis
    using pos_imp_zdiv_nonneg_iff [of "2 ^ 29" "a * a"] by simp
qed

lemma sint_fixed_64_diff:
  "- (2 ^ 63) \<le> sint a - sint b \<Longrightarrow> sint a - sint b < 2 ^ 63
    \<Longrightarrow> sint (a - b :: fixed_64) = sint a - sint b"
  by (simp add: sint_word_ariths signed_take_bit_int_eq_self)

lemma sint_fixed_mult_small:
  assumes "\<bar>sint a\<bar> \<le> 2 ^ 27" and "\<bar>sint b\<bar> \<le> 2 ^ 27"
  shows "sint (fixed_mult a b) = sint a * sint b div 2 ^ 29"
    and "- (2 ^ 25) \<le> sint (fixed_mult a b)" and "sint (fixed_mult a b) \<le> 2 ^ 25"
proof -
  note b = product_quotient_bounds [OF assms]
  show e: "sint (fixed_mult a b) = sint a * sint b div 2 ^ 29"
    using b by (intro sint_fixed_mult) simp_all
  show "- (2 ^ 25) \<le> sint (fixed_mult a b)" and "sint (fixed_mult a b) \<le> 2 ^ 25"
    using b unfolding e by simp_all
qed

text \<open>
  In the view of the end-to-end scenario every sample point has \<open>|x| \<le> 40960000\<close> and
  \<open>|y| \<le> 30720000\<close> (about 0.076 and 0.057). For such a point \<open>|zr|\<close> and \<open>|zi|\<close>
  stay at most \<open>2 ^ 27\<close> (0.25): the squares and the product are at most \<open>2 ^ 25\<close>
  after the shift, so the next \<open>|zr|\<close> is at most \<open>2 ^ 25 + 40960000\<close> and the next
  \<open>|zi|\<close> at most \<open>2 ^ 26 + 30720000\<close>, and \<^verbatim>\<open>modulus_sq\<close> is at most \<open>2 ^ 26\<close>, far
  below \<open>4 << 29\<close>.
\<close>

lemma interior_step:
  fixes x y :: fixed_32 and zr zi :: fixed_64
  assumes "\<bar>sint x\<bar> \<le> 40960000" and "\<bar>sint y\<bar> \<le> 30720000"
    and "\<bar>sint zr\<bar> \<le> 2 ^ 27" and "\<bar>sint zi\<bar> \<le> 2 ^ 27"
  shows "fixed_mult zr zr + fixed_mult zi zi \<le> push_bit FRAC_BITS 4"
    and "\<bar>sint (fixed_mult zr zr - fixed_mult zi zi + scast x)\<bar> \<le> 2 ^ 27"
    and "\<bar>sint (push_bit 1 (fixed_mult zr zi) + scast y)\<bar> \<le> 2 ^ 27"
proof -
  define rr where "rr = sint (fixed_mult zr zr)"
  define ii where "ii = sint (fixed_mult zi zi)"
  define ri where "ri = sint (fixed_mult zr zi)"
  have rr: "0 \<le> rr" "rr \<le> 2 ^ 25"
    using sint_fixed_mult_small [OF assms(3) assms(3)] square_quotient_nonneg [of "sint zr"]
    by (simp_all add: rr_def)
  have ii: "0 \<le> ii" "ii \<le> 2 ^ 25"
    using sint_fixed_mult_small [OF assms(4) assms(4)] square_quotient_nonneg [of "sint zi"]
    by (simp_all add: ii_def)
  have ri: "- (2 ^ 25) \<le> ri" "ri \<le> 2 ^ 25"
    using sint_fixed_mult_small [OF assms(3) assms(4)] by (simp_all add: ri_def)
  have sx: "sint (scast x :: fixed_64) = sint x" and sy: "sint (scast y :: fixed_64) = sint y"
    by (simp_all add: sint_scast_fixed_32)
  have s: "sint (fixed_mult zr zr + fixed_mult zi zi) = rr + ii"
    using rr ii unfolding rr_def ii_def by (intro sint_fixed_64_sum) simp_all
  then have "uint (fixed_mult zr zr + fixed_mult zi zi) = rr + ii"
    using rr ii uint_of_nonneg_sint [of "fixed_mult zr zr + fixed_mult zi zi"] by simp
  then show "fixed_mult zr zr + fixed_mult zi zi \<le> push_bit FRAC_BITS 4"
    using rr ii by (simp add: word_le_def FRAC_BITS_def)
  have d: "sint (fixed_mult zr zr - fixed_mult zi zi) = rr - ii"
    using rr ii unfolding rr_def ii_def by (intro sint_fixed_64_diff) simp_all
  have "sint (fixed_mult zr zr - fixed_mult zi zi + scast x) = rr - ii + sint x"
    using rr ii assms(1) sint_fixed_64_sum [of "fixed_mult zr zr - fixed_mult zi zi" "scast x"]
    by (simp add: d sx)
  then show "\<bar>sint (fixed_mult zr zr - fixed_mult zi zi + scast x)\<bar> \<le> 2 ^ 27"
    using rr ii assms(1) by simp
  define p where "p = push_bit 1 (fixed_mult zr zi)"
  have t: "sint p = 2 * ri"
    using ri unfolding ri_def p_def by (intro sint_fixed_64_double) simp_all
  have "sint (p + scast y) = 2 * ri + sint y"
    using ri assms(2) sint_fixed_64_sum [of p "scast y"]
    by (simp add: t sy)
  then show "\<bar>sint (push_bit 1 (fixed_mult zr zi) + scast y)\<bar> \<le> 2 ^ 27"
    using ri assms(2) unfolding p_def by simp
qed

lemma escape_loop_interior:
  fixes x y :: fixed_32
  assumes "\<bar>sint x\<bar> \<le> 40960000" and "\<bar>sint y\<bar> \<le> 30720000"
  shows "\<bar>sint zr\<bar> \<le> 2 ^ 27 \<Longrightarrow> \<bar>sint zi\<bar> \<le> 2 ^ 27 \<Longrightarrow> msq \<le> push_bit FRAC_BITS 4
    \<Longrightarrow> i \<le> m \<Longrightarrow> escape_loop x y m i zr zi msq = m"
proof (induction "nat (m - i)" arbitrary: i zr zi msq)
  case 0
  then have "i = m" by simp
  then show ?case
    by (subst escape_loop.simps) simp
next
  case (Suc k)
  then have lt: "i < m" and k: "k = nat (m - (i + 1))" and le: "i + 1 \<le> m"
    by auto
  note st = interior_step [OF assms Suc.prems(1) Suc.prems(2)]
  have nx: "escape_loop x y m (i + 1) (fixed_mult zr zr - fixed_mult zi zi + scast x)
      (push_bit 1 (fixed_mult zr zi) + scast y) (fixed_mult zr zr + fixed_mult zi zi) = m"
    using st le by (intro Suc.hyps(1) [OF k])
  show ?case
    using lt nx Suc.prems(3) by (subst escape_loop.simps) (simp add: Let_def)
qed

lemma pixel_interior:
  fixes x y :: fixed_32
  assumes "\<bar>sint x\<bar> \<le> 40960000" and "\<bar>sint y\<bar> \<le> 30720000" and "0 \<le> m"
  shows "pixel x y m colour_map = Inr 0"
proof -
  have "escape_loop x y m 0 0 0 0 = m"
    using assms(3) by (intro escape_loop_interior [OF assms(1,2)]) simp_all
  then show ?thesis
    by (simp add: pixel_def)
qed

subsection \<open>The two loops over the grid\<close>

declare draw_row.simps [simp del]
declare draw_rows.simps [simp del]

lemma draw_row_interior:
  fixes yf inc :: fixed_32
  assumes "\<bar>sint yf\<bar> \<le> 30720000" and "0 \<le> m" and "sint inc = 128000"
  shows "x \<le> XSIZE \<Longrightarrow> sint xf = - 40960000 + 128000 * int x
    \<Longrightarrow> y < length fb \<Longrightarrow> length (fb ! y) = XSIZE
    \<Longrightarrow> draw_row y x xf yf inc m cm fb
        = Inr (fb[y := take x (fb ! y) @ replicate (XSIZE - x) 0])"
proof (induction "XSIZE - x" arbitrary: x xf fb)
  case 0
  then have "x = XSIZE" by simp
  then show ?case
    using "0.prems"(4) by (subst draw_row.simps) simp
next
  case (Suc d)
  then have lt: "x < XSIZE" and d: "d = XSIZE - Suc x" and le: "Suc x \<le> XSIZE"
    by simp_all
  have "int x \<le> 639"
    using lt by (simp add: XSIZE_def)
  then have xr: "\<bar>sint xf\<bar> \<le> 40960000"
    using Suc.prems(2) by simp
  have px: "pixel xf yf m cm = Inr 0"
    using xr assms(1,2) by (intro pixel_interior)
  define fb' where "fb' = fb[y := (fb ! y)[x := 0]]"
  have "sint (xf + inc) = sint xf + sint inc"
    using xr assms(3) by (intro sint_fixed_32_sum) simp_all
  then have sx: "sint (xf + inc) = - 40960000 + 128000 * int (Suc x)"
    using Suc.prems(2) assms(3) by simp
  have y': "y < length fb'" and l': "length (fb' ! y) = XSIZE"
    using Suc.prems(3,4) by (simp_all add: fb'_def)
  have row: "fb' ! y = (fb ! y)[x := 0]"
    using Suc.prems(3) by (simp add: fb'_def)
  have "take (Suc x) (fb' ! y) = take x (fb ! y) @ [0]"
    using lt Suc.prems(4) by (simp add: row take_Suc_conv_app_nth)
  moreover have "replicate (XSIZE - x) (0 :: colour) = 0 # replicate (XSIZE - Suc x) 0"
    using lt by (cases "XSIZE - x") simp_all
  ultimately have fin: "fb'[y := take (Suc x) (fb' ! y) @ replicate (XSIZE - Suc x) 0]
      = fb[y := take x (fb ! y) @ replicate (XSIZE - x) 0]"
    by (simp add: fb'_def)
  have "draw_row y x xf yf inc m cm fb = draw_row y (Suc x) (xf + inc) yf inc m cm fb'"
    using lt by (subst draw_row.simps) (simp add: px fb'_def)
  also have "\<dots> = Inr (fb'[y := take (Suc x) (fb' ! y) @ replicate (XSIZE - Suc x) 0])"
    using le sx y' l' by (intro Suc.hyps(1) [OF d])
  finally show ?case
    by (simp only: fin)
qed

lemma draw_rows_interior:
  fixes x_start inc :: fixed_32
  assumes "0 \<le> m" and "sint inc = 128000" and "sint x_start = - 40960000"
  shows "y \<le> YSIZE \<Longrightarrow> sint yf = 30720000 - 128000 * int y
    \<Longrightarrow> length fb = YSIZE \<Longrightarrow> \<forall>r \<in> set fb. length r = XSIZE
    \<Longrightarrow> draw_rows y x_start yf inc m cm fb
        = Inr (take y fb @ replicate (YSIZE - y) (replicate XSIZE 0))"
proof (induction "YSIZE - y" arbitrary: y yf fb)
  case 0
  then have "y = YSIZE" by simp
  then show ?case
    using "0.prems"(3) by (subst draw_rows.simps) simp
next
  case (Suc d)
  then have lt: "y < YSIZE" and d: "d = YSIZE - Suc y" and le: "Suc y \<le> YSIZE"
    by simp_all
  have "int y \<le> 479"
    using lt by (simp add: YSIZE_def)
  then have yr: "\<bar>sint yf\<bar> \<le> 30720000"
    using Suc.prems(2) by simp
  have yl: "y < length fb" and rl: "length (fb ! y) = XSIZE"
    using lt Suc.prems(3,4) by simp_all
  define fb' where "fb' = fb[y := replicate XSIZE (0 :: colour)]"
  have "draw_row y 0 x_start yf inc m cm fb
      = Inr (fb[y := take 0 (fb ! y) @ replicate (XSIZE - 0) 0])"
    using assms(3) yl rl by (intro draw_row_interior [OF yr assms(1,2)]) simp_all
  then have row: "draw_row y 0 x_start yf inc m cm fb = Inr fb'"
    by (simp add: fb'_def)
  have "sint (yf - inc) = sint yf - sint inc"
    using yr assms(2) by (intro sint_fixed_32_diff) simp_all
  then have sy: "sint (yf - inc) = 30720000 - 128000 * int (Suc y)"
    using Suc.prems(2) assms(2) by simp
  have l': "length fb' = YSIZE"
    using Suc.prems(3) by (simp add: fb'_def)
  have r': "\<forall>r \<in> set fb'. length r = XSIZE"
    using Suc.prems(4) set_update_subset_insert [of fb y "replicate XSIZE 0"]
    by (auto simp add: fb'_def)
  have "take (Suc y) fb' = take y fb @ [replicate XSIZE 0]"
    using yl by (simp add: fb'_def take_Suc_conv_app_nth)
  moreover have "replicate (YSIZE - y) (replicate XSIZE (0 :: colour))
      = replicate XSIZE 0 # replicate (YSIZE - Suc y) (replicate XSIZE 0)"
    using lt by (cases "YSIZE - y") simp_all
  ultimately have fin: "take (Suc y) fb' @ replicate (YSIZE - Suc y) (replicate XSIZE 0)
      = take y fb @ replicate (YSIZE - y) (replicate XSIZE 0)"
    by simp
  have "draw_rows y x_start yf inc m cm fb = draw_rows (Suc y) x_start (yf - inc) inc m cm fb'"
    using lt by (subst draw_rows.simps) (simp add: row)
  also have "\<dots> = Inr (take (Suc y) fb' @ replicate (YSIZE - Suc y) (replicate XSIZE 0))"
    using le sy l' r' by (intro Suc.hyps(1) [OF d])
  finally show ?case
    by (simp only: fin)
qed

subsection \<open>The frame of the centre \<open>(0, 0)\<close> at zoom 5\<close>

lemma drawMandelbrot_interior:
  fixes x_fixed y_fixed inc_fixed :: fixed_32
  assumes "sint x_fixed = - 40960000" and "sint y_fixed = 30720000" and "sint inc_fixed = 128000"
    and "0 \<le> m" and "length fb = YSIZE" and "\<forall>r \<in> set fb. length r = XSIZE"
  shows "drawMandelbrot x_fixed y_fixed inc_fixed m fb cm
    = Inr (replicate YSIZE (replicate XSIZE 0))"
proof -
  have "draw_rows 0 x_fixed y_fixed inc_fixed m cm fb
      = Inr (take 0 fb @ replicate (YSIZE - 0) (replicate XSIZE 0))"
    using assms(2,5,6) by (intro draw_rows_interior [OF assms(4) assms(3) assms(1)]) simp_all
  then show ?thesis
    by (simp add: drawMandelbrot_def)
qed

lemma centre_zoom_5:
  "sint (c_x (center_coords (ucast (0 :: fixed_64)) (ucast (0 :: fixed_64)) 5)) = - 40960000"
  "sint (c_y (center_coords (ucast (0 :: fixed_64)) (ucast (0 :: fixed_64)) 5)) = 30720000"
  "sint (c_step (center_coords (ucast (0 :: fixed_64)) (ucast (0 :: fixed_64)) 5)) = 128000"
  by (simp_all add: center_coords_def Let_def BASE_INCREMENT_AMOUNT_def XSIZE_def YSIZE_def
      drop_bit_eq_div)

lemma black_frame_symmetric:
  "map rev (replicate YSIZE (replicate XSIZE (0 :: colour))) = replicate YSIZE (replicate XSIZE 0)"
  "rev (replicate YSIZE (replicate XSIZE (0 :: colour))) = replicate YSIZE (replicate XSIZE 0)"
  "symmetric_about_centre_column (replicate YSIZE (replicate XSIZE 0))"
  "symmetric_about_centre_row (replicate YSIZE (replicate XSIZE 0))"
  "replicate YSIZE (replicate XSIZE (0 :: colour)) ! 240 ! 320 = 0"
  by (simp_all add: symmetric_about_centre_column_def symmetric_about_centre_row_def
      XSIZE_def YSIZE_def)

text \<open>
  Claim C7. With the centre \<open>(0, 0)\<close>, \<^verbatim>\<open>zoom = 5\<close>, \<^verbatim>\<open>max_iterations = 50\<close> and the
  anchors \<^verbatim>\<open>0x0000, 0x2104, 0x4208, 0x630C, 0x8410, 0xFFFF\<close>, the test case returns a
  frame buffer. The whole view lies inside the set, so no sample point escapes and
  every pixel is 0: the frame is symmetric about the middle of the grid in both
  directions and about its centre pixel's column and row, and the centre pixel is 0.
\<close>

theorem centre_frame_symmetric:
  "\<exists>fb. render_test_case 0 0 5 50 0x0000 0x2104 0x4208 0x630C 0x8410 0xFFFF = Some (Inr fb)
     \<and> fb = replicate YSIZE (replicate XSIZE 0)
     \<and> map rev fb = fb \<and> rev fb = fb
     \<and> symmetric_about_centre_column fb \<and> symmetric_about_centre_row fb
     \<and> fb ! 240 ! 320 = 0"
proof -
  define pts :: "colour list" where "pts = [0x0000, 0x2104, 0x4208, 0x630C, 0x8410, 0xFFFF]"
  have len: "length pts = 6"
    by (simp add: pts_def)
  obtain u where u: "generate_unique_colours [] pts = Some (Inr u)"
    using generate_unique_colours_result [OF len] by blast
  have ul: "0 < length u" "length u < 2 ^ 31"
    using generated_length [OF len u] by simp_all
  have m: "clamp_max_iterations 50 = int 50"
    by (simp add: clamp_max_iterations_def)
  obtain cm where cm: "generate_colour_map (int 50) u [] = Inr cm"
    using generate_colour_map_result [of 50 u "[]"] ul by auto
  have dm: "drawMandelbrot (c_x (center_coords (ucast (0 :: fixed_64)) (ucast (0 :: fixed_64)) 5))
      (c_y (center_coords (ucast (0 :: fixed_64)) (ucast (0 :: fixed_64)) 5))
      (c_step (center_coords (ucast (0 :: fixed_64)) (ucast (0 :: fixed_64)) 5)) (int 50)
      (replicate YSIZE (replicate XSIZE 0x7BEF)) cm = Inr (replicate YSIZE (replicate XSIZE 0))"
    by (intro drawMandelbrot_interior centre_zoom_5) simp_all
  have "render_test_case 0 0 5 50 0x0000 0x2104 0x4208 0x630C 0x8410 0xFFFF
      = Some (Inr (replicate YSIZE (replicate XSIZE 0)))"
    unfolding render_test_case_def Let_def m pts_def [symmetric] u
    by (simp only: option.case sum.case cm dm)
  then show ?thesis
    using black_frame_symmetric by blast
qed

text \<open>The theorem at two pairs of mirrored pixels and at the centre pixel.\<close>

theorem centre_frame_symmetric_witness:
  "\<exists>fb. render_test_case 0 0 5 50 0x0000 0x2104 0x4208 0x630C 0x8410 0xFFFF = Some (Inr fb)
     \<and> fb ! 100 ! (320 - 7) = fb ! 100 ! (320 + 7)
     \<and> fb ! (240 - 9) ! 600 = fb ! (240 + 9) ! 600
     \<and> fb ! 240 ! 320 = 0"
proof -
  from centre_frame_symmetric obtain fb where
    r: "render_test_case 0 0 5 50 0x0000 0x2104 0x4208 0x630C 0x8410 0xFFFF = Some (Inr fb)"
    and c: "symmetric_about_centre_column fb" and w: "symmetric_about_centre_row fb"
    and z: "fb ! 240 ! 320 = 0"
    by blast
  have "(100::nat) \<in> {0..<YSIZE}" and "(7::nat) \<in> {1..<320}"
    by (simp_all add: YSIZE_def)
  with c have "fb ! 100 ! (320 - 7) = fb ! 100 ! (320 + 7)"
    unfolding symmetric_about_centre_column_def by blast
  moreover have "(600::nat) \<in> {0..<XSIZE}" and "(9::nat) \<in> {1..<240}"
    by (simp_all add: XSIZE_def)
  with w have "fb ! (240 - 9) ! 600 = fb ! (240 + 9) ! 600"
    unfolding symmetric_about_centre_row_def by blast
  ultimately show ?thesis
    using r z by blast
qed

end
